theory Spec2Isabelle
  imports Main
begin

section \<open>Strings of the palette script\<close>

text \<open>
  The palette script \<^verbatim>\<open>palette.js\<close> works on JavaScript strings. A string is modelled
  as a \<^typ>\<open>string\<close>, each \<^typ>\<open>char\<close> standing for the code unit of the same number,
  so the model covers the texts whose code units are below 256 (ASCII and the Latin-1
  block). In that range the white space of \<^verbatim>\<open>String.prototype.trim\<close> and of the regular
  expression class \<^verbatim>\<open>\s\<close> is TAB, LF, VT, FF, CR, SPACE and NBSP; the line terminators,
  which the regular expression \<^verbatim>\<open>.\<close> does not match, are LF and CR; \<^verbatim>\<open>\d\<close> is an ASCII
  digit and \<^verbatim>\<open>\w\<close> an ASCII letter, digit or underscore.
\<close>

definition isSpace :: "char \<Rightarrow> bool" where
  "isSpace c = (c \<in> {CHR 0x09, CHR 0x0A, CHR 0x0B, CHR 0x0C, CHR 0x0D, CHR '' '', CHR 0xA0})"

definition isLineTerminator :: "char \<Rightarrow> bool" where
  "isLineTerminator c = (c \<in> {CHR 0x0A, CHR 0x0D})"

definition isDigit :: "char \<Rightarrow> bool" where
  "isDigit c = (c \<in> set ''0123456789'')"

definition isWordChar :: "char \<Rightarrow> bool" where
  "isWordChar c =
     (c \<in> set ''ABCDEFGHIJKLMNOPQRSTUVWXYZabcdefghijklmnopqrstuvwxyz0123456789_'')"

text \<open>\<^verbatim>\<open>text.split('\n')\<close>: the pieces between line feeds; the empty text has one empty line.\<close>

fun split_nl :: "string \<Rightarrow> string list" where
  "split_nl [] = [[]]"
| "split_nl (c # cs) =
     (if c = CHR 0x0A then [] # split_nl cs
      else (case split_nl cs of [] \<Rightarrow> [[c]] | l # ls \<Rightarrow> (c # l) # ls))"

text \<open>\<^verbatim>\<open>s.trim()\<close>: white space removed at both ends.\<close>

definition trim :: "string \<Rightarrow> string" where
  "trim s = rev (dropWhile isSpace (rev (dropWhile isSpace s)))"

text \<open>\<^verbatim>\<open>s.startsWith(p)\<close>; \<^verbatim>\<open>s.substring(n)\<close> is \<^term>\<open>drop n s\<close>.\<close>

definition startsWith :: "string \<Rightarrow> string \<Rightarrow> bool" where
  "startsWith p s = (take (length p) s = p)"

text \<open>The decimal digits of a number, as a template literal \<^verbatim>\<open>${n}\<close> prints them.\<close>

fun decimal :: "nat \<Rightarrow> string" where
  "decimal n =
     (if n < 10 then [''0123456789'' ! n]
      else decimal (n div 10) @ [''0123456789'' ! (n mod 10)])"

declare decimal.simps [simp del]

section \<open>Escaping and inline markdown\<close>

text \<open>
  \<^verbatim>\<open>escapeHTML(text)\<close> stores the text as the text content of a fresh element and reads
  the element's markup back. The serialisation of a text node replaces, character by
  character, \<^verbatim>\<open>&\<close>, NBSP, \<^verbatim>\<open><\<close> and \<^verbatim>\<open>>\<close> by their entities and keeps every other
  character.
\<close>

definition escapeChar :: "char \<Rightarrow> string" where
  "escapeChar c =
     (if c = CHR ''&'' then ''&amp;''
      else if c = CHR 0xA0 then ''&nbsp;''
      else if c = CHR ''<'' then ''&lt;''
      else if c = CHR ''>'' then ''&gt;''
      else [c])"

definition escapeHTML :: "string \<Rightarrow> string" where
  "escapeHTML text = concat (map escapeChar text)"

text \<open>
  The word boundary \<^verbatim>\<open>\b\<close> holds between two positions exactly one of which is a word
  character; the ends of the string count as no word character.
\<close>

definition wordBoundary :: "char option \<Rightarrow> char option \<Rightarrow> bool" where
  "wordBoundary prev nxt =
     ((case prev of None \<Rightarrow> False | Some c \<Rightarrow> isWordChar c)
        \<noteq> (case nxt of None \<Rightarrow> False | Some c \<Rightarrow> isWordChar c))"

text \<open>
  A match of \<^verbatim>\<open>/\*\*([^*]+)\*\*/\<close> (delimiter \<^verbatim>\<open>*\<close>) or \<^verbatim>\<open>/__([^_]+)__/\<close> (delimiter
  \<^verbatim>\<open>_\<close>) at the start of \<open>s\<close>: the captured group and the length of the match. The
  greedy group takes every character up to the next delimiter, and giving characters
  back cannot help, since the closing pair must start with a delimiter.
\<close>

definition matchBold :: "char \<Rightarrow> char option \<Rightarrow> string \<Rightarrow> (string \<times> nat) option" where
  "matchBold d prev s =
     (case s of
        a # b # r \<Rightarrow>
          if a = d \<and> b = d then
            (let body = takeWhile (\<lambda>c. c \<noteq> d) r;
                 rest = dropWhile (\<lambda>c. c \<noteq> d) r
             in if body \<noteq> [] \<and> take 2 rest = [d, d]
                then Some (body, length body + 4) else None)
          else None
      | _ \<Rightarrow> None)"

text \<open>
  A match of \<^verbatim>\<open>/\b\*([^*\n]+?)\*\b/\<close> or \<^verbatim>\<open>/\b_([^_\n]+?)_\b/\<close> at the start of \<open>s\<close>,
  where \<open>prev\<close> is the character in front of \<open>s\<close>. The lazy group grows until the
  next character is the delimiter; it cannot grow past it.
\<close>

definition matchItalic :: "char \<Rightarrow> char option \<Rightarrow> string \<Rightarrow> (string \<times> nat) option" where
  "matchItalic d prev s =
     (case s of
        [] \<Rightarrow> None
      | a # r \<Rightarrow>
          if a = d \<and> wordBoundary prev (Some a) then
            (let body = takeWhile (\<lambda>c. c \<noteq> d \<and> c \<noteq> CHR 0x0A) r;
                 rest = dropWhile (\<lambda>c. c \<noteq> d \<and> c \<noteq> CHR 0x0A) r
             in case rest of
                  [] \<Rightarrow> None
                | e # r' \<Rightarrow>
                    if body \<noteq> [] \<and> e = d
                       \<and> wordBoundary (Some e) (case r' of [] \<Rightarrow> None | x # _ \<Rightarrow> Some x)
                    then Some (body, length body + 2) else None)
          else None)"

text \<open>
  \<^verbatim>\<open>html.replace(/re/g, '<tag>$1</tag>')\<close>: the string is scanned from the left; where
  the expression matches, the match is replaced by the group between the two tags and
  the scan goes on behind the match, otherwise the character is kept. \<open>prev\<close> is the
  character in front of the scanning position.
\<close>

fun replaceAll ::
  "(char option \<Rightarrow> string \<Rightarrow> (string \<times> nat) option) \<Rightarrow> string \<Rightarrow> string
     \<Rightarrow> char option \<Rightarrow> string \<Rightarrow> string" where
  "replaceAll m opn cls prev [] = []"
| "replaceAll m opn cls prev (c # cs) =
     (case m prev (c # cs) of
        None \<Rightarrow> c # replaceAll m opn cls (Some c) cs
      | Some (body, n) \<Rightarrow>
          opn @ body @ cls
            @ replaceAll m opn cls (Some (last (take n (c # cs)))) (drop (n - 1) cs))"

definition parseInlineMarkdown :: "string \<Rightarrow> string" where
  "parseInlineMarkdown text =
     (let html = escapeHTML text;
          html = replaceAll (matchBold (CHR ''*'')) ''<strong>'' ''</strong>'' None html;
          html = replaceAll (matchBold (CHR ''_'')) ''<strong>'' ''</strong>'' None html;
          html = replaceAll (matchItalic (CHR ''*'')) ''<em>'' ''</em>'' None html;
          html = replaceAll (matchItalic (CHR ''_'')) ''<em>'' ''</em>'' None html
      in html)"

section \<open>The line scan of the renderer\<close>

text \<open>
  \<^verbatim>\<open>line.match(/^(\d+)[.)]\s+(.+)$/)\<close>, returning the second group. The digits and the
  white space are taken greedily; \<^term>\<open>spaceBacktrack r k\<close> tries \<open>k\<close> white space
  characters of \<open>r\<close>, then one less, down to one, until what follows them is not empty
  and has no line terminator.
\<close>

fun spaceBacktrack :: "string \<Rightarrow> nat \<Rightarrow> string option" where
  "spaceBacktrack r 0 = None"
| "spaceBacktrack r (Suc k) =
     (let rest = drop (Suc k) r
      in if rest \<noteq> [] \<and> \<not> list_ex isLineTerminator rest then Some rest
         else spaceBacktrack r k)"

definition numberedMatch :: "string \<Rightarrow> string option" where
  "numberedMatch line =
     (let ds = takeWhile isDigit line in
      if ds = [] then None
      else (case dropWhile isDigit line of
              [] \<Rightarrow> None
            | p # r \<Rightarrow>
                if p = CHR ''.'' \<or> p = CHR '')''
                then spaceBacktrack r (length (takeWhile isSpace r))
                else None))"

text \<open>
  The entries pushed on the \<^verbatim>\<open>output\<close> array, one constructor for each kind of
  \<^verbatim>\<open>output.push\<close>, and the string each one stands for.
\<close>

datatype chunk =
    CloseP
  | Heading nat string
  | StepItem string string
  | OpenP
  | Br
  | Inline string

fun chunkHTML :: "chunk \<Rightarrow> string" where
  "chunkHTML CloseP = ''</p>''"
| "chunkHTML (Heading n t) = ''<h'' @ decimal n @ ''>'' @ t @ ''</h'' @ decimal n @ ''>''"
| "chunkHTML (StepItem ident t) =
     ''<label class=\"step-item\"><input type=\"checkbox\" class=\"step-checkbox\" id=\"''
       @ ident @ ''\"><span class=\"step-text\">'' @ t @ ''</span></label>''"
| "chunkHTML OpenP = ''<p>''"
| "chunkHTML Br = ''<br>''"
| "chunkHTML (Inline t) = t"

text \<open>
  \<^verbatim>\<open>`step-${Date.now()}-${stepCounter++}`\<close>, for a clock reading \<open>t\<close> (milliseconds
  since 1970, a natural number) and a counter \<open>k\<close>.
\<close>

definition stepId :: "nat \<Rightarrow> nat \<Rightarrow> string" where
  "stepId t k = ''step-'' @ decimal t @ ''-'' @ decimal k"

record scan =
  output_arr :: "chunk list"
  inParagraph :: bool
  stepCounter :: nat

text \<open>\<^verbatim>\<open>if (inParagraph) { output.push('</p>'); inParagraph = false; }\<close>\<close>

definition closeParagraph :: "scan \<Rightarrow> scan" where
  "closeParagraph st =
     (if inParagraph st then st\<lparr>output_arr := output_arr st @ [CloseP], inParagraph := False\<rparr>
      else st)"

definition push :: "chunk \<Rightarrow> scan \<Rightarrow> scan" where
  "push c st = st\<lparr>output_arr := output_arr st @ [c]\<rparr>"

text \<open>
  One turn of the loop over the lines. \<open>clock k\<close> is what \<^verbatim>\<open>Date.now()\<close> returns when it
  is called for the step with counter \<open>k\<close>. The variable \<^verbatim>\<open>nextLine\<close> of the source is
  never read and is left out.
\<close>

definition processLine :: "(nat \<Rightarrow> nat) \<Rightarrow> scan \<Rightarrow> string \<Rightarrow> scan" where
  "processLine clock st raw =
     (let line = trim raw in
      if startsWith ''### '' line then
        push (Heading 3 (escapeHTML (parseInlineMarkdown (drop 4 line)))) (closeParagraph st)
      else if startsWith ''## '' line then
        push (Heading 2 (escapeHTML (parseInlineMarkdown (drop 3 line)))) (closeParagraph st)
      else if startsWith ''# '' line then
        push (Heading 1 (escapeHTML (parseInlineMarkdown (drop 2 line)))) (closeParagraph st)
      else
        (case numberedMatch line of
           Some stepText \<Rightarrow>
             (push (StepItem (stepId (clock (stepCounter st)) (stepCounter st))
                      (parseInlineMarkdown stepText))
                (closeParagraph st))
               \<lparr>stepCounter := Suc (stepCounter st)\<rparr>
         | None \<Rightarrow>
             if line = [] then closeParagraph st
             else if \<not> inParagraph st then
               push (Inline (parseInlineMarkdown line)) ((push OpenP st)\<lparr>inParagraph := True\<rparr>)
             else push (Inline (parseInlineMarkdown line)) (push Br st)))"

definition initialScan :: scan where
  "initialScan = \<lparr>output_arr = [], inParagraph = False, stepCounter = 0\<rparr>"

text \<open>The loop over the lines, and the closing of a paragraph left open behind it.\<close>

definition scanLines :: "(nat \<Rightarrow> nat) \<Rightarrow> string list \<Rightarrow> chunk list" where
  "scanLines clock ls = output_arr (closeParagraph (foldl (processLine clock) initialScan ls))"

definition renderChunks :: "(nat \<Rightarrow> nat) \<Rightarrow> string \<Rightarrow> chunk list" where
  "renderChunks clock text = scanLines clock (split_nl text)"

definition parseMarkdownToHTML :: "(nat \<Rightarrow> nat) \<Rightarrow> string \<Rightarrow> string" where
  "parseMarkdownToHTML clock text = concat (map chunkHTML (renderChunks clock text))"

section \<open>The chat transcript and the host bridge\<close>

text \<open>
  The values \<^verbatim>\<open>JSON.parse\<close> returns. An object lists its properties in the order of the
  text; reading a property takes the last entry with that name. A number is a value
  of a type \<open>'n\<close> of the host (the doubles of the runtime): the script only asks
  whether it is zero and has the host print it.
\<close>

datatype 'n json =
    JNull
  | JBool bool
  | JNum 'n
  | JStr string
  | JArr "'n json list"
  | JObj "(string \<times> 'n json) list"

text \<open>
  \<open>getProp v k\<close> is \<^verbatim>\<open>v.k\<close> for a value other than \<^verbatim>\<open>null\<close>, with \<open>None\<close> for
  \<^verbatim>\<open>undefined\<close>; the names the script reads (\<^verbatim>\<open>text\<close>, \<^verbatim>\<open>screenshot\<close>,
  \<^verbatim>\<open>base64\<close>) are properties of objects only. \<open>truthy z v\<close> is the conversion to a
  boolean in a condition, where \<open>z\<close> tells which numbers are zero.
\<close>

fun getProp :: "'n json \<Rightarrow> string \<Rightarrow> 'n json option" where
  "getProp (JObj kvs) k = map_of (rev kvs) k"
| "getProp _ k = None"

fun truthy :: "('n \<Rightarrow> bool) \<Rightarrow> 'n json \<Rightarrow> bool" where
  "truthy z JNull = False"
| "truthy z (JBool b) = b"
| "truthy z (JNum n) = (\<not> z n)"
| "truthy z (JStr s) = (s \<noteq> [])"
| "truthy z (JArr _) = True"
| "truthy z (JObj _) = True"

datatype exn = SyntaxError | TypeError | BridgeFailure

text \<open>
  What the script takes from its host: the JSON functions of the runtime
  (\<open>jsonParse\<close> is \<open>None\<close> where \<^verbatim>\<open>JSON.parse\<close> throws, \<open>jsonStringify v\<close> is
  \<^verbatim>\<open>JSON.stringify(v)\<close>, \<open>jsonPretty v\<close> is \<^verbatim>\<open>JSON.stringify(v, null, 2)\<close>, \<open>toStr v\<close>
  is the template literal \<^verbatim>\<open>`${v}`\<close>, which throws for an object or array whose own
  \<^verbatim>\<open>toString\<close> property is no function, and \<open>isZero\<close> tells the numbers that are zero),
  the clock (\<open>dateNow k\<close> is the value of
  \<^verbatim>\<open>Date.now()\<close> at the step with counter \<open>k\<close> of a rendering, \<open>wallClock\<close> the hours,
  minutes and seconds of \<^verbatim>\<open>new Date()\<close>), and the bridge \<^verbatim>\<open>adsk.fusionSendData\<close>,
  whose promise is fulfilled with a text or rejected.
\<close>

record 'n host =
  jsonParse :: "string \<Rightarrow> 'n json option"
  jsonStringify :: "'n json \<Rightarrow> string"
  jsonPretty :: "'n json \<Rightarrow> string"
  toStr :: "'n json \<Rightarrow> exn + string"
  isZero :: "'n \<Rightarrow> bool"
  dateNow :: "nat \<Rightarrow> nat"
  wallClock :: "nat \<times> nat \<times> nat"
  fusionSendData :: "string \<Rightarrow> string \<Rightarrow> exn + string"

text \<open>\<^verbatim>\<open>`${n}`.padStart(2, "0")\<close> and \<^verbatim>\<open>nowTime()\<close>.\<close>

definition pad :: "nat \<Rightarrow> string" where
  "pad n = replicate (2 - length (decimal n)) (CHR ''0'') @ decimal n"

definition nowTime :: "'n host \<Rightarrow> string" where
  "nowTime h = (case wallClock h of (hh, mm, ss) \<Rightarrow> pad hh @ '':'' @ pad mm @ '':'' @ pad ss)"

text \<open>
  The texts shown in the status line: \<open>Ready\<close> is \<^verbatim>\<open>Ready.\<close>, \<open>SendingToFusion\<close> is
  \<^verbatim>\<open>Sending to Fusion\<close> followed by an ellipsis character, \<open>FusionReceived r\<close> is
  \<^verbatim>\<open>Fusion received. (r)\<close>, \<open>FailedToSend\<close> is
  \<^verbatim>\<open>Failed to send message to Fusion. See console.\<close> and \<open>HandlerError a\<close> is
  \<^verbatim>\<open>Error handling message from Fusion: a\<close>.
\<close>

datatype status_text =
    Ready
  | SendingToFusion
  | FusionReceived string
  | FailedToSend
  | HandlerError string

text \<open>
  An entry of the message list: the class name of its bubble, the bubble's content,
  set either as markup (\<^verbatim>\<open>innerHTML\<close>) or as plain text (\<^verbatim>\<open>textContent\<close>), and the
  two parts of the line below it, the speaker and the time, which the page shows with a
  bullet between them.
\<close>

datatype content = InnerHTML string | TextContent string

record message =
  className :: string
  bubble :: content
  who :: string
  time :: string

datatype log_entry = LogExn exn | LogText string

record preview =
  src :: string
  display :: string

text \<open>
  The page as the script sees it: the message list, the status line with its
  \<^verbatim>\<open>error\<close> class, the context box, the screenshot image (which the script allows to be
  absent), the input field, the send button, the console, and the calls made to the
  bridge. Focus and scrolling are not part of the model.
\<close>

record ui =
  messages :: "message list"
  status :: "status_text \<times> bool"
  contextText :: string
  screenshotPreview :: "preview option"
  chatInput :: string
  sendDisabled :: bool
  console :: "log_entry list"
  bridgeCalls :: "(string \<times> string) list"

definition setStatus :: "status_text \<Rightarrow> bool \<Rightarrow> ui \<Rightarrow> ui" where
  "setStatus t isError s = s\<lparr>status := (t, isError)\<rparr>"

definition appendMessage :: "'n host \<Rightarrow> string \<Rightarrow> string \<Rightarrow> ui \<Rightarrow> ui" where
  "appendMessage h role text s =
     s\<lparr>messages := messages s @
         [\<lparr>className = ''msg '' @ role,
           bubble = (if role = ''assistant'' then InnerHTML (parseMarkdownToHTML (dateNow h) text)
                   else TextContent text),
           who = (if role = ''user'' then ''You'' else ''FusBuddy360''),
           time = nowTime h\<rparr>]\<rparr>"

text \<open>
  \<^verbatim>\<open>updateContext(jsonString)\<close>. In its second \<^verbatim>\<open>try\<close> block only the template
  literal with the \<^verbatim>\<open>base64\<close> value can throw; the \<^verbatim>\<open>catch\<close> block then hides the
  image, as the \<^verbatim>\<open>else\<close> branch does.
\<close>

definition updateContext :: "'n host \<Rightarrow> string \<Rightarrow> ui \<Rightarrow> ui" where
  "updateContext h jsonString s =
     (let obj = jsonParse h jsonString;
          s1 = s\<lparr>contextText := (case obj of Some v \<Rightarrow> jsonPretty h v | None \<Rightarrow> jsonString)\<rparr>
      in case screenshotPreview s1 of
           None \<Rightarrow> s1
         | Some img \<Rightarrow>
             (let screenshot =
                    (case obj of
                       None \<Rightarrow> None
                     | Some v \<Rightarrow>
                         if truthy (isZero h) v then
                           (case getProp v ''screenshot'' of
                              None \<Rightarrow> None
                            | Some sc \<Rightarrow> if truthy (isZero h) sc then Some sc else None)
                         else None);
                  base64 =
                    (case screenshot of
                       None \<Rightarrow> None
                     | Some sc \<Rightarrow>
                         (case getProp sc ''base64'' of
                            None \<Rightarrow> None
                          | Some b \<Rightarrow> if truthy (isZero h) b then Some b else None));
                  hidden = s1\<lparr>screenshotPreview := Some (img\<lparr>src := [], display := ''none''\<rparr>)\<rparr>
              in case base64 of
                   Some b \<Rightarrow>
                     (case toStr h b of
                        Inr t \<Rightarrow>
                          s1\<lparr>screenshotPreview :=
                               Some (img\<lparr>src := ''data:image/png;base64,'' @ t,
                                         display := ''block''\<rparr>)\<rparr>
                      | Inl e \<Rightarrow> hidden)
                 | None \<Rightarrow> hidden))"

text \<open>
  \<^verbatim>\<open>sendUserQuery()\<close>. The call to the bridge is awaited; the model runs the function
  to its end with the outcome the host gives, and records the call.
\<close>

definition sendUserQuery :: "'n host \<Rightarrow> ui \<Rightarrow> ui" where
  "sendUserQuery h s =
     (let text = trim (chatInput s) in
      if text = [] then s
      else
        (let s1 = (appendMessage h ''user'' text s)\<lparr>chatInput := []\<rparr>;
             s2 = setStatus SendingToFusion False (s1\<lparr>sendDisabled := True\<rparr>);
             payload = jsonStringify h (JObj [(''text'', JStr text)]);
             s3 = s2\<lparr>bridgeCalls := bridgeCalls s2 @ [(''userQuery'', payload)]\<rparr>;
             s4 = (case fusionSendData h ''userQuery'' payload of
                     Inr result \<Rightarrow> setStatus (FusionReceived result) False s3
                   | Inl e \<Rightarrow>
                       setStatus FailedToSend True (s3\<lparr>console := console s3 @ [LogExn e]\<rparr>))
         in s4\<lparr>sendDisabled := False\<rparr>))"

text \<open>
  The \<^verbatim>\<open>catch\<close> block of \<^verbatim>\<open>fusionJavaScriptHandler.handle\<close>, and the argument
  \<^verbatim>\<open>msg.text ?? `${msg}`\<close> of its first branch: reading a property of \<^verbatim>\<open>null\<close> throws,
  and so does the template literal where the host's conversion does.
\<close>

definition handleCatch :: "exn \<Rightarrow> string \<Rightarrow> string \<Rightarrow> ui \<Rightarrow> ui" where
  "handleCatch e action data s =
     setStatus (HandlerError action) True
       (s\<lparr>console := console s @
            [LogExn e,
             LogText (''Exception caught with command: '' @ action @ '', data: '' @ data)]\<rparr>)"

definition assistantText :: "'n host \<Rightarrow> 'n json \<Rightarrow> exn + 'n json" where
  "assistantText h msg =
     (if msg = JNull then Inl TypeError
      else (case getProp msg ''text'' of
              None \<Rightarrow> map_sum id JStr (toStr h msg)
            | Some v \<Rightarrow> if v = JNull then map_sum id JStr (toStr h msg) else Inr v))"

text \<open>
  \<^verbatim>\<open>handle(action, data)\<close>: the acknowledgement returned and the page afterwards. A
  text of the assistant that is no string has no \<^verbatim>\<open>split\<close> method, so rendering it
  throws before the page is changed.
\<close>

definition handle :: "'n host \<Rightarrow> string \<Rightarrow> string \<Rightarrow> ui \<Rightarrow> string \<times> ui" where
  "handle h action data s =
     (if action = ''assistantMessage'' then
        (case jsonParse h data of
           None \<Rightarrow> (''OK'', handleCatch SyntaxError action data s)
         | Some msg \<Rightarrow>
             (case assistantText h msg of
                Inl e \<Rightarrow> (''OK'', handleCatch e action data s)
              | Inr (JStr text) \<Rightarrow>
                  (''OK'', setStatus Ready False (appendMessage h ''assistant'' text s))
              | Inr _ \<Rightarrow> (''OK'', handleCatch TypeError action data s)))
      else if action = ''contextUpdate'' then (''OK'', updateContext h data s)
      else if action = ''debugger'' then (''OK'', s)
      else (''Unexpected command type: '' @ action, s))"

text \<open>
  A host and a page for running the model: the parser of this host accepts the one
  payload \<^verbatim>\<open>{"text":"hi"}\<close> and rejects every other text, so that its conversion to
  text is given for strings and objects only, and its bridge answers \<^verbatim>\<open>ok\<close>.
\<close>

definition sampleHost :: "int host" where
  "sampleHost =
     \<lparr>jsonParse = (\<lambda>t. if t = ''{\"text\":\"hi\"}'' then Some (JObj [(''text'', JStr ''hi'')])
                        else None),
      jsonStringify = (\<lambda>v. case v of JObj [(k, JStr t)] \<Rightarrow> ''{\"'' @ k @ ''\":\"'' @ t @ ''\"}''
                               | _ \<Rightarrow> []),
      jsonPretty = (\<lambda>v. []),
      toStr = (\<lambda>v. case v of JStr t \<Rightarrow> Inr t | JObj kvs \<Rightarrow> Inr ''[object Object]''
                     | _ \<Rightarrow> Inl TypeError),
      isZero = (\<lambda>n. n = 0),
      dateNow = (\<lambda>k. 1000),
      wallClock = (9, 5, 30),
      fusionSendData = (\<lambda>a p. Inr ''ok'')\<rparr>"

definition emptyPage :: ui where
  "emptyPage =
     \<lparr>messages = [], status = (Ready, False), contextText = [],
      screenshotPreview = Some \<lparr>src = [], display = ''none''\<rparr>,
      chatInput = [], sendDisabled = False, console = [], bridgeCalls = []\<rparr>"

section \<open>Notions used to state the properties\<close>

text \<open>
  A line is ordinary when, stripped, it is not blank, starts with no heading marker and
  is no numbered step. The chunks of one paragraph made of the lines \<open>ls\<close>: the first
  line opens it, every further line follows a line break, and it is closed.
\<close>

definition ordinaryLine :: "string \<Rightarrow> bool" where
  "ordinaryLine l =
     (trim l \<noteq> [] \<and> \<not> startsWith ''### '' (trim l) \<and> \<not> startsWith ''## '' (trim l)
      \<and> \<not> startsWith ''# '' (trim l) \<and> numberedMatch (trim l) = None)"

fun paragraphChunks :: "string list \<Rightarrow> chunk list" where
  "paragraphChunks [] = []"
| "paragraphChunks (l # ls) =
     [OpenP, Inline (parseInlineMarkdown (trim l))]
       @ concat (map (\<lambda>m. [Br, Inline (parseInlineMarkdown (trim m))]) ls) @ [CloseP]"

text \<open>The identifiers of the step items among some chunks, and a chunk without its identifier.\<close>

fun stepIds :: "chunk list \<Rightarrow> string list" where
  "stepIds [] = []"
| "stepIds (StepItem ident t # cs) = ident # stepIds cs"
| "stepIds (c # cs) = stepIds cs"

fun eraseId :: "chunk \<Rightarrow> chunk" where
  "eraseId (StepItem ident t) = StepItem [] t"
| "eraseId c = c"

text \<open>
  The markup the renderer writes itself: the emphasis tags of inline parsing, and the
  tags of the blocks, among which the check box of a step item with any identifier the
  renderer can make.
\<close>

definition emphasisTags :: "string set" where
  "emphasisTags = {''<strong>'', ''</strong>'', ''<em>'', ''</em>''}"

definition checkboxTags :: "string set" where
  "checkboxTags =
     range (\<lambda>(t, k).
       ''<input type=\"checkbox\" class=\"step-checkbox\" id=\"'' @ stepId t k @ ''\">'')"

definition blockTags :: "string set" where
  "blockTags =
     {''<h1>'', ''</h1>'', ''<h2>'', ''</h2>'', ''<h3>'', ''</h3>'', ''<p>'', ''</p>'', ''<br>'',
      ''<label class=\"step-item\">'', ''<span class=\"step-text\">'', ''</span>'', ''</label>''}
     \<union> checkboxTags"

text \<open>
  \<open>markupOnly T s\<close>: the string \<open>s\<close> is made of tags in \<open>T\<close> and of characters other
  than the angle brackets, so that every tag in it is one of \<open>T\<close>.
\<close>

inductive markupOnly :: "string set \<Rightarrow> string \<Rightarrow> bool" for T :: "string set" where
  markupOnly_Nil: "markupOnly T []"
| markupOnly_char: "c \<noteq> CHR ''<'' \<Longrightarrow> c \<noteq> CHR ''>'' \<Longrightarrow> markupOnly T s \<Longrightarrow> markupOnly T (c # s)"
| markupOnly_tag: "t \<in> T \<Longrightarrow> markupOnly T s \<Longrightarrow> markupOnly T (t @ s)"

text \<open>
  \<open>emphasised s t\<close>: \<open>t\<close> is \<open>s\<close> with some of its single or doubled emphasis
  delimiters (\<^verbatim>\<open>*\<close>, \<^verbatim>\<open>_\<close>) replaced by an emphasis tag, and nothing else changed.
\<close>

inductive emphasised :: "string \<Rightarrow> string \<Rightarrow> bool" where
  emphasised_Nil: "emphasised [] []"
| emphasised_keep: "emphasised s t \<Longrightarrow> emphasised (c # s) (c # t)"
| emphasised_single:
    "d = CHR ''*'' \<or> d = CHR ''_'' \<Longrightarrow> tg \<in> emphasisTags \<Longrightarrow> emphasised s t
       \<Longrightarrow> emphasised (d # s) (tg @ t)"
| emphasised_double:
    "d = CHR ''*'' \<or> d = CHR ''_'' \<Longrightarrow> tg \<in> emphasisTags \<Longrightarrow> emphasised s t
       \<Longrightarrow> emphasised (d # d # s) (tg @ t)"

text \<open>
  \<open>decodeEntities s\<close>: the text a page shows for markup \<open>s\<close> without tags, each of
  the four entities of \<^term>\<open>escapeChar\<close> read as its character.
\<close>

fun decodeEntities :: "string \<Rightarrow> string" where
  "decodeEntities [] = []"
| "decodeEntities (c # cs) =
     (if c = CHR ''&'' \<and> startsWith ''amp;'' cs then CHR ''&'' # decodeEntities (drop 4 cs)
      else if c = CHR ''&'' \<and> startsWith ''nbsp;'' cs then CHR 0xA0 # decodeEntities (drop 5 cs)
      else if c = CHR ''&'' \<and> startsWith ''lt;'' cs then CHR ''<'' # decodeEntities (drop 3 cs)
      else if c = CHR ''&'' \<and> startsWith ''gt;'' cs then CHR ''>'' # decodeEntities (drop 3 cs)
      else c # decodeEntities cs)"

text \<open>
  \<open>chunkFrom line c\<close>: the text of the chunk \<open>c\<close> is made from the line by escaping
  and inline parsing and by nothing else: the text of a paragraph line is the
  inline-parsed line, the text of a step item is the inline-parsed end of the line, and
  the text of a heading is the inline-parsed end of the line, escaped once more.
\<close>

fun chunkFrom :: "string \<Rightarrow> chunk \<Rightarrow> bool" where
  "chunkFrom line (Heading n t) =
     (\<exists>p r. line = p @ r \<and> t = escapeHTML (parseInlineMarkdown r))"
| "chunkFrom line (StepItem ident t) = (\<exists>p r. line = p @ r \<and> t = parseInlineMarkdown r)"
| "chunkFrom line (Inline t) = (t = parseInlineMarkdown line)"
| "chunkFrom line c = True"

text \<open>
  What a chunk may hold: a heading of level 1 to 3 whose text has no tag at all, a step
  item with an identifier made by \<^term>\<open>stepId\<close>, and inline text in which the only
  tags are emphasis tags.
\<close>

fun safeChunk :: "chunk \<Rightarrow> bool" where
  "safeChunk (Heading n t) = ((n = 1 \<or> n = 2 \<or> n = 3) \<and> markupOnly {} t)"
| "safeChunk (StepItem ident t) = ((\<exists>a k. ident = stepId a k) \<and> markupOnly emphasisTags t)"
| "safeChunk (Inline t) = markupOnly emphasisTags t"
| "safeChunk c = True"

section \<open>Stripping lines\<close>

lemma trim_Nil_iff: "trim s = [] \<longleftrightarrow> list_all isSpace s"
proof -
  have "trim s = [] \<longleftrightarrow> (\<forall>x \<in> set (dropWhile isSpace s). isSpace x)"
    by (simp add: trim_def dropWhile_eq_Nil_conv)
  also have "\<dots> \<longleftrightarrow> dropWhile isSpace s = []"
  proof
    assume a: "\<forall>x \<in> set (dropWhile isSpace s). isSpace x"
    show "dropWhile isSpace s = []"
    proof (rule ccontr)
      assume n: "dropWhile isSpace s \<noteq> []"
      then have "\<not> isSpace (hd (dropWhile isSpace s))" by (rule hd_dropWhile)
      moreover have "hd (dropWhile isSpace s) \<in> set (dropWhile isSpace s)" using n by simp
      ultimately show False using a by blast
    qed
  qed (auto dest: set_dropWhileD)
  also have "\<dots> \<longleftrightarrow> list_all isSpace s"
    by (simp add: dropWhile_eq_Nil_conv list_all_iff)
  finally show ?thesis .
qed

lemma dropWhile_all: "list_all P w \<Longrightarrow> dropWhile P (w @ xs) = dropWhile P xs"
  by (induction w) auto

lemma trim_pad:
  assumes "list_all isSpace w1" "list_all isSpace w2"
  shows "trim (w1 @ l @ w2) = trim l"
proof -
  have a: "dropWhile isSpace (w1 @ l @ w2) = dropWhile isSpace (l @ w2)"
    using assms(1) by (rule dropWhile_all)
  show ?thesis
  proof (cases "list_all isSpace l")
    case True
    then have "list_all isSpace (w1 @ l @ w2)" using assms by simp
    then show ?thesis using True by (simp only: trim_Nil_iff [symmetric])
  next
    case False
    then have "\<exists>x\<in>set l. \<not> isSpace x" by (simp add: list_all_iff)
    then have b: "dropWhile isSpace (l @ w2) = dropWhile isSpace l @ w2"
      by (auto simp: dropWhile_append1)
    have c: "list_all isSpace (rev w2)" using assms(2) by (simp add: list_all_iff)
    show ?thesis
      unfolding trim_def a b using dropWhile_all [OF c] by simp
  qed
qed

lemma trim_id:
  assumes "l \<noteq> []" "\<not> isSpace (hd l)" "\<not> isSpace (last l)"
  shows "trim l = l"
proof -
  have "dropWhile isSpace l = l" using assms(1,2) by (cases l) auto
  moreover have "dropWhile isSpace (rev l) = rev l"
    using assms(1,3) by (cases "rev l") (auto simp: hd_rev [symmetric] simp del: hd_rev)
  ultimately show ?thesis by (simp add: trim_def)
qed

lemma trim_ends:
  assumes "trim l \<noteq> []"
  shows "\<not> isSpace (hd (trim l))" "\<not> isSpace (last (trim l))"
proof -
  let ?d = "dropWhile isSpace l"
  let ?e = "dropWhile isSpace (rev ?d)"
  have e: "?e \<noteq> []" using assms by (simp add: trim_def)
  have d: "?d \<noteq> []"
  proof
    assume "?d = []"
    then have "?e = []" by (simp only: rev.simps dropWhile.simps)
    then show False using e by simp
  qed
  have "\<not> isSpace (hd ?e)" using e by (rule hd_dropWhile)
  then show "\<not> isSpace (last (trim l))" using e by (simp add: trim_def last_rev)
  have "last ?e = last (rev ?d)"
    using e by (metis takeWhile_dropWhile_id last_appendR)
  then have "last ?e = hd ?d" using d by (simp add: last_rev)
  moreover have "\<not> isSpace (hd ?d)" using d by (rule hd_dropWhile)
  ultimately show "\<not> isSpace (hd (trim l))" using e by (simp add: trim_def hd_rev)
qed

lemma trim_trim: "trim (trim l) = trim l"
proof (cases "trim l = []")
  case True
  show ?thesis unfolding True by (simp add: trim_def)
next
  case False
  then show ?thesis by (intro trim_id trim_ends)
qed

section \<open>Step identifiers\<close>

lemma digit_inj:
  "m < 10 \<Longrightarrow> n < 10 \<Longrightarrow> ''0123456789'' ! m = ''0123456789'' ! n \<Longrightarrow> m = n"
proof -
  assume "m < 10" "n < 10" "''0123456789'' ! m = ''0123456789'' ! n"
  moreover have "distinct ''0123456789''" by simp
  ultimately show "m = n" by (simp add: nth_eq_iff_index_eq)
qed

lemma decimal_digits: "set (decimal n) \<subseteq> set ''0123456789''"
proof (induction n rule: decimal.induct)
  case (1 n)
  have m: "''0123456789'' ! (n mod 10) \<in> set ''0123456789''"
    by (rule nth_mem) simp
  show ?case
  proof (cases "n < 10")
    case True
    then have "''0123456789'' ! n \<in> set ''0123456789''" by (intro nth_mem) simp
    then show ?thesis using True by (subst decimal.simps) simp
  next
    case False
    then show ?thesis using 1 m by (subst decimal.simps) simp
  qed
qed

lemma decimal_not_Nil: "decimal n \<noteq> []"
  by (subst decimal.simps) simp

lemma decimal_inj: "decimal m = decimal n \<Longrightarrow> m = n"
proof (induction m arbitrary: n rule: decimal.induct)
  case (1 m)
  show ?case
  proof (cases "m < 10")
    case m: True
    show ?thesis
    proof (cases "n < 10")
      case True
      then show ?thesis using m "1.prems" digit_inj [of m n]
        by (simp add: decimal.simps [of m] decimal.simps [of n])
    next
      case False
      then show ?thesis using m "1.prems" decimal_not_Nil [of "n div 10"]
        by (simp add: decimal.simps [of m] decimal.simps [of n])
    qed
  next
    case m: False
    show ?thesis
    proof (cases "n < 10")
      case True
      then show ?thesis using m "1.prems" decimal_not_Nil [of "m div 10"]
        by (simp add: decimal.simps [of m] decimal.simps [of n])
    next
      case False
      then have e: "decimal (m div 10) = decimal (n div 10)"
        and d: "''0123456789'' ! (m mod 10) = ''0123456789'' ! (n mod 10)"
        using m "1.prems" by (simp_all add: decimal.simps [of m] decimal.simps [of n])
      have "m div 10 = n div 10" using "1.IH" [OF m e] .
      moreover have "m mod 10 = n mod 10" using d by (intro digit_inj) simp_all
      ultimately show ?thesis by (metis div_mult_mod_eq)
    qed
  qed
qed

lemma hyphen_not_decimal: "CHR ''-'' \<notin> set (decimal n)"
  using decimal_digits [of n] by auto

lemma split_at_first:
  "x \<notin> set xs \<Longrightarrow> x \<notin> set ys \<Longrightarrow> xs @ x # xs' = ys @ x # ys' \<Longrightarrow> xs = ys \<and> xs' = ys'"
proof (induction xs arbitrary: ys)
  case Nil
  then show ?case by (cases ys) auto
next
  case (Cons a xs)
  then show ?case by (cases ys) auto
qed

lemma stepId_eq_iff: "stepId a j = stepId b k \<longleftrightarrow> a = b \<and> j = k"
proof
  assume "stepId a j = stepId b k"
  then have "decimal a @ CHR ''-'' # decimal j = decimal b @ CHR ''-'' # decimal k"
    by (simp add: stepId_def)
  then have "decimal a = decimal b \<and> decimal j = decimal k"
    using hyphen_not_decimal [of a] hyphen_not_decimal [of b]
    by (intro split_at_first)
  then show "a = b \<and> j = k" by (auto dest: decimal_inj)
qed simp

section \<open>The handler of inbound messages and the sending of a query\<close>

text \<open>
  C8. An action other than \<^verbatim>\<open>assistantMessage\<close>, \<^verbatim>\<open>contextUpdate\<close> and \<^verbatim>\<open>debugger\<close>
  is answered, whatever the data, by the text \<^verbatim>\<open>Unexpected command type: \<close> followed
  by the action, and the page is left as it was.
\<close>

theorem handle_unknown_action:
  "action \<noteq> ''assistantMessage'' \<Longrightarrow> action \<noteq> ''contextUpdate'' \<Longrightarrow> action \<noteq> ''debugger''
     \<Longrightarrow> handle h action data s = (''Unexpected command type: '' @ action, s)"
  by (simp add: handle_def)

theorem handle_unknown_action_witness:
  "''reload'' \<noteq> ''assistantMessage'' \<and> ''reload'' \<noteq> ''contextUpdate''
     \<and> ''reload'' \<noteq> ''debugger''
     \<and> handle sampleHost ''reload'' ''{}'' emptyPage
         = (''Unexpected command type: reload'', emptyPage)"
  using handle_unknown_action [of "''reload''" sampleHost "''{}''" emptyPage] by simp

text \<open>
  C6. When the input field holds nothing but white space, sending changes nothing: no
  message is appended and the bridge is not called. Otherwise a user message with the
  stripped text is appended, the input field is cleared, and the stripped text is
  passed to the bridge as the \<^verbatim>\<open>text\<close> of a \<^verbatim>\<open>userQuery\<close>.
\<close>

theorem sendUserQuery_blank_or_sent:
  "(list_all isSpace (chatInput s) \<longrightarrow> sendUserQuery h s = s)
   \<and> (\<not> list_all isSpace (chatInput s) \<longrightarrow>
        messages (sendUserQuery h s)
          = messages s @ [\<lparr>className = ''msg user'', bubble = TextContent (trim (chatInput s)),
                           who = ''You'', time = nowTime h\<rparr>]
        \<and> chatInput (sendUserQuery h s) = []
        \<and> bridgeCalls (sendUserQuery h s)
          = bridgeCalls s
              @ [(''userQuery'', jsonStringify h (JObj [(''text'', JStr (trim (chatInput s)))]))])"
  by (simp add: sendUserQuery_def trim_Nil_iff Let_def appendMessage_def setStatus_def
      split: sum.split)

theorem sendUserQuery_blank_or_sent_witness:
  "list_all isSpace (chatInput (emptyPage\<lparr>chatInput := '' ''\<rparr>))
   \<and> sendUserQuery sampleHost (emptyPage\<lparr>chatInput := '' ''\<rparr>) = emptyPage\<lparr>chatInput := '' ''\<rparr>
   \<and> \<not> list_all isSpace (chatInput (emptyPage\<lparr>chatInput := '' hello ''\<rparr>))
   \<and> messages (sendUserQuery sampleHost (emptyPage\<lparr>chatInput := '' hello ''\<rparr>))
       = [\<lparr>className = ''msg user'', bubble = TextContent ''hello'', who = ''You'',
           time = ''09:05:30''\<rparr>]
   \<and> chatInput (sendUserQuery sampleHost (emptyPage\<lparr>chatInput := '' hello ''\<rparr>)) = []
   \<and> bridgeCalls (sendUserQuery sampleHost (emptyPage\<lparr>chatInput := '' hello ''\<rparr>))
       = [(''userQuery'', ''{\"text\":\"hello\"}'')]"
  using sendUserQuery_blank_or_sent [of "emptyPage\<lparr>chatInput := '' ''\<rparr>" sampleHost]
    sendUserQuery_blank_or_sent [of "emptyPage\<lparr>chatInput := '' hello ''\<rparr>" sampleHost]
  by (simp add: emptyPage_def sampleHost_def isSpace_def trim_def nowTime_def pad_def
      decimal.simps)

text \<open>
  C7, as the claim states it, fails for an assistant message: with a payload that is no
  JSON the handler shows the text nowhere on the page. It logs the exception, sets the
  error status and acknowledges with \<^verbatim>\<open>OK\<close>.
\<close>

theorem handle_assistant_unparseable_dropped:
  "handle sampleHost ''assistantMessage'' ''not json'' emptyPage
     = (''OK'', emptyPage\<lparr>status := (HandlerError ''assistantMessage'', True),
                         console := [LogExn SyntaxError,
                            LogText
                              ''Exception caught with command: assistantMessage, data: not json'']\<rparr>)"
  by (simp add: handle_def sampleHost_def emptyPage_def handleCatch_def setStatus_def)

text \<open>
  C7, amended. For a payload that is no JSON, a context update shows the payload as it
  is in the context box, hides the screenshot and is acknowledged with \<^verbatim>\<open>OK\<close>; an
  assistant message is acknowledged with \<^verbatim>\<open>OK\<close> as well and no exception leaves the
  handler, but the message list stays as it was: the exception is logged and the status
  line shows the error.
\<close>

theorem handle_unparseable_payload:
  "jsonParse h data = None \<Longrightarrow>
     handle h ''contextUpdate'' data s
       = (''OK'', s\<lparr>contextText := data,
                    screenshotPreview :=
                      map_option (\<lambda>img. img\<lparr>src := [], display := ''none''\<rparr>) (screenshotPreview s)\<rparr>)
     \<and> handle h ''assistantMessage'' data s
       = (''OK'', s\<lparr>status := (HandlerError ''assistantMessage'', True),
                    console := console s @
                      [LogExn SyntaxError,
                       LogText (''Exception caught with command: assistantMessage, data: '' @ data)]\<rparr>)"
  by (cases "screenshotPreview s")
     (simp_all add: handle_def updateContext_def handleCatch_def setStatus_def Let_def)

theorem handle_unparseable_payload_witness:
  "jsonParse sampleHost ''not json'' = None
   \<and> handle sampleHost ''contextUpdate'' ''not json'' emptyPage
       = (''OK'', emptyPage\<lparr>contextText := ''not json''\<rparr>)
   \<and> messages (snd (handle sampleHost ''assistantMessage'' ''not json'' emptyPage)) = []"
  using handle_unparseable_payload [of sampleHost "''not json''" emptyPage]
  by (simp add: sampleHost_def emptyPage_def)

lemma handle_assistant_example:
  "handle sampleHost ''assistantMessage'' ''{\"text\":\"hi\"}'' emptyPage
     = (''OK'', emptyPage\<lparr>messages :=
          [\<lparr>className = ''msg assistant'', bubble = InnerHTML ''<p>hi</p>'',
            who = ''FusBuddy360'', time = ''09:05:30''\<rparr>]\<rparr>)"
  by (simp add: handle_def sampleHost_def emptyPage_def assistantText_def appendMessage_def
      setStatus_def nowTime_def pad_def decimal.simps
      parseMarkdownToHTML_def renderChunks_def scanLines_def processLine_def
      trim_def isSpace_def startsWith_def numberedMatch_def isDigit_def closeParagraph_def
      push_def initialScan_def parseInlineMarkdown_def escapeHTML_def escapeChar_def
      matchBold_def matchItalic_def wordBoundary_def isWordChar_def)

section \<open>Rendering\<close>

text \<open>
  C2. The text \<^verbatim>\<open>**bold** and *italic*\<close> is rendered as one paragraph in which
  \<^verbatim>\<open>bold\<close> is strong, but \<^verbatim>\<open>*italic*\<close> stays as it is written: the expression for
  italics asks for a word character in front of the opening asterisk and behind the
  closing one, and here a space and the end of the text are found.
\<close>

theorem render_bold_and_star_italic:
  "parseMarkdownToHTML clock ''**bold** and *italic*''
     = ''<p><strong>bold</strong> and *italic*</p>''"
  by (simp add: parseMarkdownToHTML_def renderChunks_def scanLines_def processLine_def
      trim_def isSpace_def startsWith_def numberedMatch_def isDigit_def closeParagraph_def
      push_def initialScan_def parseInlineMarkdown_def escapeHTML_def escapeChar_def
      matchBold_def matchItalic_def wordBoundary_def isWordChar_def)

lemma italic_examples:
  "parseInlineMarkdown ''an _italic_ word'' = ''an <em>italic</em> word''"
  "parseInlineMarkdown ''an *italic* word'' = ''an *italic* word''"
  "parseInlineMarkdown ''a*b*c and x_y_z'' = ''a<em>b</em>c and x_y_z''"
  by (simp_all add: parseInlineMarkdown_def escapeHTML_def escapeChar_def
      matchBold_def matchItalic_def wordBoundary_def isWordChar_def)

lemma heading_examples:
  "renderChunks clock ''# Title'' = [Heading 1 ''Title'']"
  "renderChunks clock ''## heading'' = [Heading 2 ''heading'']"
  "renderChunks clock ''### deep'' = [Heading 3 ''deep'']"
  "parseMarkdownToHTML clock ''# Title'' = ''<h1>Title</h1>''"
  by (simp_all add: parseMarkdownToHTML_def renderChunks_def scanLines_def processLine_def
      trim_def isSpace_def startsWith_def closeParagraph_def push_def initialScan_def
      decimal.simps parseInlineMarkdown_def escapeHTML_def escapeChar_def matchBold_def
      matchItalic_def wordBoundary_def isWordChar_def)

text \<open>
  C3. The text of a heading is not the inline-parsed rest of the line: the result of
  inline parsing is escaped once more, so that the emphasis tags and the entities of a
  heading are shown as text.
\<close>

theorem render_heading_escaped_twice:
  "parseMarkdownToHTML clock ''# **Bold** & more''
     = ''<h1>&lt;strong&gt;Bold&lt;/strong&gt; &amp;amp; more</h1>''"
  by (simp add: parseMarkdownToHTML_def renderChunks_def scanLines_def processLine_def
      trim_def isSpace_def startsWith_def numberedMatch_def isDigit_def closeParagraph_def
      push_def initialScan_def decimal.simps parseInlineMarkdown_def escapeHTML_def
      escapeChar_def matchBold_def matchItalic_def wordBoundary_def isWordChar_def)

lemma takeWhile_all: "list_all P xs \<Longrightarrow> \<not> P y \<Longrightarrow> takeWhile P (xs @ y # ys) = xs"
  by (induction xs) auto

lemma dropWhile_all_Cons: "list_all P xs \<Longrightarrow> \<not> P y \<Longrightarrow> dropWhile P (xs @ y # ys) = y # ys"
  by (induction xs) auto

lemma numberedMatch_parts:
  assumes ds: "ds \<noteq> []" "list_all isDigit ds"
    and p: "p = CHR ''.'' \<or> p = CHR '')''"
    and ws: "ws \<noteq> []" "list_all isSpace ws"
    and rest: "rest \<noteq> []" "\<not> isSpace (hd rest)" "\<not> list_ex isLineTerminator rest"
  shows "numberedMatch (ds @ p # ws @ rest) = Some rest"
proof -
  have np: "\<not> isDigit p" using p by (auto simp: isDigit_def)
  have t: "takeWhile isDigit (ds @ p # ws @ rest) = ds"
    using ds(2) np by (rule takeWhile_all)
  have d: "dropWhile isDigit (ds @ p # ws @ rest) = p # ws @ rest"
    using ds(2) np by (rule dropWhile_all_Cons)
  obtain x r where xr: "rest = x # r" using rest(1) by (cases rest) auto
  then have nx: "\<not> isSpace x" using rest(2) by simp
  have s: "takeWhile isSpace (ws @ rest) = ws"
    unfolding xr using ws(2) nx by (rule takeWhile_all)
  obtain k where k: "length ws = Suc k" using ws(1) by (cases ws) auto
  have "spaceBacktrack (ws @ rest) (Suc k) = Some rest"
    using rest(1,3) k by simp
  then show ?thesis
    using ds(1) p by (auto simp: numberedMatch_def t d s k)
qed

lemma digits_no_heading:
  assumes "ds \<noteq> []" "list_all isDigit ds"
  shows "\<not> startsWith ''### '' (ds @ r)" "\<not> startsWith ''## '' (ds @ r)"
    "\<not> startsWith ''# '' (ds @ r)"
  using assms by (cases ds; auto simp: startsWith_def isDigit_def)+

lemma spaceBacktrack_terminator:
  "list_ex isLineTerminator rest \<Longrightarrow> k \<le> length ws \<Longrightarrow> spaceBacktrack (ws @ rest) k = None"
proof (induction k)
  case 0
  then show ?case by simp
next
  case (Suc k)
  then have "list_ex isLineTerminator (drop (Suc k) (ws @ rest))"
    by (auto simp: list_ex_iff)
  then show ?case using Suc by (simp add: Let_def)
qed

lemma numberedMatch_terminator:
  assumes ds: "ds \<noteq> []" "list_all isDigit ds"
    and p: "p = CHR ''.'' \<or> p = CHR '')''"
    and ws: "list_all isSpace ws"
    and rest: "rest \<noteq> []" "\<not> isSpace (hd rest)" "list_ex isLineTerminator rest"
  shows "numberedMatch (ds @ p # ws @ rest) = None"
proof -
  have np: "\<not> isDigit p" using p by (auto simp: isDigit_def)
  have d: "dropWhile isDigit (ds @ p # ws @ rest) = p # ws @ rest"
    using ds(2) np by (rule dropWhile_all_Cons)
  obtain x r where xr: "rest = x # r" using rest(1) by (cases rest) auto
  then have nx: "\<not> isSpace x" using rest(2) by simp
  have s: "takeWhile isSpace (ws @ rest) = ws"
    unfolding xr using ws nx by (rule takeWhile_all)
  have "spaceBacktrack (ws @ rest) (length ws) = None"
    using rest(3) by (rule spaceBacktrack_terminator) simp
  then show ?thesis by (simp add: numberedMatch_def d s)
qed

text \<open>
  C4, as the claim states it, fails: the text is split at line feeds only, so a line
  can hold a carriage return. The line \<^verbatim>\<open>1. a\<close>, carriage return, \<^verbatim>\<open>b\<close> is made of a
  digit, a full stop, a space and a rest, but the rest of the numbered expression does
  not reach over a carriage return: the line is no step and becomes paragraph text.
\<close>

theorem numbered_line_with_carriage_return:
  "''1. a'' @ [CHR 0x0D] @ ''b'' = ''1'' @ CHR ''.'' # '' '' @ (''a'' @ [CHR 0x0D] @ ''b'')
   \<and> list_all isDigit ''1'' \<and> list_all isSpace '' ''
   \<and> split_nl (''1. a'' @ [CHR 0x0D] @ ''b'') = [''1. a'' @ [CHR 0x0D] @ ''b'']
   \<and> renderChunks (\<lambda>k. 1000) (''1. a'' @ [CHR 0x0D] @ ''b'')
       = [OpenP, Inline (''1. a'' @ [CHR 0x0D] @ ''b''), CloseP]"
  by (simp add: renderChunks_def scanLines_def processLine_def
      trim_def isSpace_def startsWith_def numberedMatch_def isDigit_def closeParagraph_def
      push_def initialScan_def parseInlineMarkdown_def escapeHTML_def escapeChar_def
      matchBold_def matchItalic_def wordBoundary_def isWordChar_def isLineTerminator_def)

text \<open>
  C4, amended. A line made of digits, a full stop or a closing parenthesis, white space
  and a rest without white space at its ends is a step exactly when the rest holds no
  line terminator (no carriage return). Then it closes an open paragraph and adds a step
  item: its text is the inline-parsed rest, without the numeral and the white space,
  and its identifier is made of the clock and the step counter, which goes up by one.
  With a carriage return in the rest the whole line is paragraph text. The text
  \<^verbatim>\<open>1. Do X\<close>, \<^verbatim>\<open>2. Do Y\<close> on two lines gives exactly two step items with the texts
  \<^verbatim>\<open>Do X\<close> and \<^verbatim>\<open>Do Y\<close> and different identifiers.
\<close>

theorem numbered_line_step_item:
  assumes "ds \<noteq> []" "list_all isDigit ds"
    and "p = CHR ''.'' \<or> p = CHR '')''"
    and "ws \<noteq> []" "list_all isSpace ws"
    and "rest \<noteq> []" "\<not> isSpace (hd rest)" "\<not> isSpace (last rest)"
  shows "(\<not> list_ex isLineTerminator rest \<longrightarrow>
           processLine clock st (ds @ p # ws @ rest)
             = (push (StepItem (stepId (clock (stepCounter st)) (stepCounter st))
                        (parseInlineMarkdown rest))
                  (closeParagraph st))\<lparr>stepCounter := Suc (stepCounter st)\<rparr>)
         \<and> (list_ex isLineTerminator rest \<longrightarrow>
           processLine clock st (ds @ p # ws @ rest)
             = (if inParagraph st
                then push (Inline (parseInlineMarkdown (ds @ p # ws @ rest))) (push Br st)
                else push (Inline (parseInlineMarkdown (ds @ p # ws @ rest)))
                       ((push OpenP st)\<lparr>inParagraph := True\<rparr>)))
         \<and> renderChunks clock ''1. Do X\<newline>2. Do Y''
           = [StepItem (stepId (clock 0) 0) ''Do X'', StepItem (stepId (clock 1) 1) ''Do Y'']
         \<and> stepId (clock 0) 0 \<noteq> stepId (clock 1) 1"
proof -
  let ?l = "ds @ p # ws @ rest"
  have "\<not> isSpace (hd ds)" using assms(1,2) by (cases ds) (auto simp: isDigit_def isSpace_def)
  then have h: "\<not> isSpace (hd ?l)" using assms(1) by simp
  have l: "\<not> isSpace (last ?l)" using assms(6,8) by simp
  have tr: "trim ?l = ?l" using h l by (intro trim_id) simp_all
  note nh = digits_no_heading [OF assms(1,2), of "p # ws @ rest"]
  have a: "processLine clock st ?l
           = (push (StepItem (stepId (clock (stepCounter st)) (stepCounter st))
                      (parseInlineMarkdown rest))
                (closeParagraph st))\<lparr>stepCounter := Suc (stepCounter st)\<rparr>"
    if n: "\<not> list_ex isLineTerminator rest"
  proof -
    have nm: "numberedMatch ?l = Some rest"
      using assms(1-7) n by (rule numberedMatch_parts)
    show ?thesis using nh by (simp add: processLine_def tr nm)
  qed
  have a': "processLine clock st ?l
             = (if inParagraph st
                then push (Inline (parseInlineMarkdown ?l)) (push Br st)
                else push (Inline (parseInlineMarkdown ?l))
                       ((push OpenP st)\<lparr>inParagraph := True\<rparr>))"
    if n: "list_ex isLineTerminator rest"
  proof -
    have nm: "numberedMatch ?l = None"
      using assms(1-3,5-7) n by (rule numberedMatch_terminator)
    show ?thesis using nh assms(1) by (simp add: processLine_def tr nm)
  qed
  have b: "renderChunks clock ''1. Do X\<newline>2. Do Y''
           = [StepItem (stepId (clock 0) 0) ''Do X'', StepItem (stepId (clock 1) 1) ''Do Y'']"
    by (simp add: renderChunks_def scanLines_def processLine_def
      trim_def isSpace_def startsWith_def numberedMatch_def isDigit_def closeParagraph_def
      push_def initialScan_def parseInlineMarkdown_def escapeHTML_def escapeChar_def
      matchBold_def matchItalic_def wordBoundary_def isWordChar_def isLineTerminator_def)
  have c: "stepId (clock 0) 0 \<noteq> stepId (clock 1) 1"
    by (simp add: stepId_eq_iff)
  show ?thesis using a a' b c by blast
qed

theorem numbered_line_step_item_witness:
  "''12'' \<noteq> [] \<and> list_all isDigit ''12'' \<and> '' '' \<noteq> [] \<and> list_all isSpace '' ''
   \<and> ''Open the **Sketch** menu'' \<noteq> [] \<and> \<not> isSpace (hd ''Open the **Sketch** menu'')
   \<and> \<not> isSpace (last ''Open the **Sketch** menu'')
   \<and> \<not> list_ex isLineTerminator ''Open the **Sketch** menu''
   \<and> processLine (\<lambda>k. 1000) \<lparr>output_arr = [OpenP, Inline ''a''], inParagraph = True, stepCounter = 3\<rparr>
         ''12) Open the **Sketch** menu''
       = \<lparr>output_arr = [OpenP, Inline ''a'', CloseP,
                          StepItem ''step-1000-3'' ''Open the <strong>Sketch</strong> menu''],
          inParagraph = False, stepCounter = 4\<rparr>
   \<and> ''a'' @ [CHR 0x0D] @ ''b'' \<noteq> [] \<and> \<not> isSpace (hd (''a'' @ [CHR 0x0D] @ ''b''))
   \<and> \<not> isSpace (last (''a'' @ [CHR 0x0D] @ ''b''))
   \<and> list_ex isLineTerminator (''a'' @ [CHR 0x0D] @ ''b'')
   \<and> processLine (\<lambda>k. 1000) \<lparr>output_arr = [], inParagraph = False, stepCounter = 0\<rparr>
         (''12) a'' @ [CHR 0x0D] @ ''b'')
       = \<lparr>output_arr = [OpenP, Inline (''12) a'' @ [CHR 0x0D] @ ''b'')],
          inParagraph = True, stepCounter = 0\<rparr>"
  using numbered_line_step_item [of "''12''" "CHR '')''" "'' ''" "''Open the **Sketch** menu''"
      "\<lambda>k. 1000" "\<lparr>output_arr = [OpenP, Inline ''a''], inParagraph = True, stepCounter = 3\<rparr>"]
    numbered_line_step_item [of "''12''" "CHR '')''" "'' ''" "''a'' @ [CHR 0x0D] @ ''b''"
      "\<lambda>k. 1000" "\<lparr>output_arr = [], inParagraph = False, stepCounter = 0\<rparr>"]
  by (simp add: isDigit_def isSpace_def isLineTerminator_def push_def closeParagraph_def
      stepId_def decimal.simps parseInlineMarkdown_def escapeHTML_def escapeChar_def
      matchBold_def matchItalic_def wordBoundary_def isWordChar_def)

lemma processLine_ordinary:
  "ordinaryLine l \<Longrightarrow>
     processLine clock st l
       = (if inParagraph st then push (Inline (parseInlineMarkdown (trim l))) (push Br st)
          else push (Inline (parseInlineMarkdown (trim l))) ((push OpenP st)\<lparr>inParagraph := True\<rparr>))"
  by (simp add: ordinaryLine_def processLine_def)

lemma processLine_blank: "list_all isSpace l \<Longrightarrow> processLine clock st l = closeParagraph st"
  by (simp add: processLine_def trim_Nil_iff [symmetric] startsWith_def numberedMatch_def)

lemma foldl_ordinary_open:
  "list_all ordinaryLine ls \<Longrightarrow> inParagraph st \<Longrightarrow>
     foldl (processLine clock) st ls
       = st\<lparr>output_arr := output_arr st
               @ concat (map (\<lambda>m. [Br, Inline (parseInlineMarkdown (trim m))]) ls)\<rparr>"
proof (induction ls arbitrary: st)
  case Nil
  then show ?case by simp
next
  case (Cons l ls)
  have "inParagraph (processLine clock st l)"
    using Cons.prems by (simp add: processLine_ordinary push_def)
  then show ?case using Cons by (simp add: processLine_ordinary push_def)
qed

lemma foldl_ordinary:
  assumes "ls \<noteq> []" "list_all ordinaryLine ls" "\<not> inParagraph st"
  shows "closeParagraph (foldl (processLine clock) st ls)
           = st\<lparr>output_arr := output_arr st @ paragraphChunks ls\<rparr>"
proof -
  obtain l ms where ls: "ls = l # ms" using assms(1) by (cases ls) auto
  let ?s1 = "processLine clock st l"
  have s1: "?s1 = st\<lparr>output_arr := output_arr st @ [OpenP, Inline (parseInlineMarkdown (trim l))],
                      inParagraph := True\<rparr>"
    using assms(2,3) by (simp add: ls processLine_ordinary push_def)
  have "foldl (processLine clock) ?s1 ms
          = ?s1\<lparr>output_arr := output_arr ?s1
               @ concat (map (\<lambda>m. [Br, Inline (parseInlineMarkdown (trim m))]) ms)\<rparr>"
    using assms(2) by (intro foldl_ordinary_open) (simp_all add: ls s1)
  then show ?thesis using assms(3) by (simp add: ls s1 closeParagraph_def)
qed

text \<open>
  C5. Ordinary lines that follow each other make one paragraph, each line after the
  first behind a line break; a blank line closes the paragraph, so that the lines
  behind it make a second one; and the paragraph open at the end of the text is closed.
  The text \<^verbatim>\<open>para one\<close>, \<^verbatim>\<open>para two\<close>, an empty line, \<^verbatim>\<open>para three\<close> gives
  \<^verbatim>\<open><p>para one<br>para two</p><p>para three</p>\<close>.
\<close>

theorem paragraphs_accumulate_and_split:
  assumes "ls \<noteq> []" "list_all ordinaryLine ls"
    and "list_all isSpace b"
    and "ms \<noteq> []" "list_all ordinaryLine ms"
  shows "scanLines clock ls = paragraphChunks ls
         \<and> scanLines clock (ls @ b # ms) = paragraphChunks ls @ paragraphChunks ms
         \<and> parseMarkdownToHTML clock ''para one\<newline>para two\<newline>\<newline>para three''
             = ''<p>para one<br>para two</p><p>para three</p>''"
proof -
  have i: "\<not> inParagraph initialScan" by (simp add: initialScan_def)
  have a: "closeParagraph (foldl (processLine clock) initialScan ls)
             = initialScan\<lparr>output_arr := paragraphChunks ls\<rparr>"
    using foldl_ordinary [OF assms(1,2) i] by (simp add: initialScan_def)
  let ?s = "initialScan\<lparr>output_arr := paragraphChunks ls\<rparr>"
  have "foldl (processLine clock) (foldl (processLine clock) initialScan ls) [b]
          = closeParagraph (foldl (processLine clock) initialScan ls)"
    using assms(3) by (simp add: processLine_blank)
  then have "closeParagraph (foldl (processLine clock) initialScan (ls @ b # ms))
          = closeParagraph (foldl (processLine clock) ?s ms)"
    by (simp add: a)
  also have "\<dots> = ?s\<lparr>output_arr := output_arr ?s @ paragraphChunks ms\<rparr>"
    using assms(4,5) by (intro foldl_ordinary) (simp_all add: initialScan_def)
  finally have b: "scanLines clock (ls @ b # ms) = paragraphChunks ls @ paragraphChunks ms"
    by (simp add: scanLines_def)
  have c: "parseMarkdownToHTML clock ''para one\<newline>para two\<newline>\<newline>para three''
             = ''<p>para one<br>para two</p><p>para three</p>''"
    by (simp add: parseMarkdownToHTML_def renderChunks_def scanLines_def processLine_def
      trim_def isSpace_def startsWith_def numberedMatch_def isDigit_def closeParagraph_def
      push_def initialScan_def parseInlineMarkdown_def escapeHTML_def escapeChar_def
      matchBold_def matchItalic_def wordBoundary_def isWordChar_def)
  show ?thesis using a b c by (simp add: scanLines_def)
qed

theorem paragraphs_accumulate_and_split_witness:
  "[''para one'', ''  para two''] \<noteq> [] \<and> list_all ordinaryLine [''para one'', ''  para two'']
   \<and> list_all isSpace '' '' \<and> [''para three''] \<noteq> [] \<and> list_all ordinaryLine [''para three'']
   \<and> scanLines (\<lambda>k. 1000) [''para one'', ''  para two'']
       = [OpenP, Inline ''para one'', Br, Inline ''para two'', CloseP]
   \<and> scanLines (\<lambda>k. 1000) [''para one'', ''  para two'', '' '', ''para three'']
       = [OpenP, Inline ''para one'', Br, Inline ''para two'', CloseP,
          OpenP, Inline ''para three'', CloseP]"
  using paragraphs_accumulate_and_split [of "[''para one'', ''  para two'']" "'' ''"
      "[''para three'']" "\<lambda>k. 1000"]
  by (simp add: ordinaryLine_def
      trim_def isSpace_def startsWith_def numberedMatch_def isDigit_def
      parseInlineMarkdown_def escapeHTML_def escapeChar_def
      matchBold_def matchItalic_def wordBoundary_def isWordChar_def)

lemma processLine_trim: "processLine clock st (trim l) = processLine clock st l"
  by (simp add: processLine_def trim_trim)

lemma foldl_processLine_trim:
  "foldl (processLine clock) st (map trim ls) = foldl (processLine clock) st ls"
  by (induction ls arbitrary: st) (simp_all add: processLine_trim)

text \<open>
  C10. White space around a line changes nothing: the line is classified and written
  as if it were not there, a line of white space only is a blank line, which closes an
  open paragraph and adds nothing, a whole text is rendered as its stripped lines are,
  and a stripped line has no white space at its ends. Indented heading and step
  markers are recognised.
\<close>

theorem lines_are_stripped:
  assumes "list_all isSpace w1" "list_all isSpace w2"
  shows "processLine clock st (w1 @ line @ w2) = processLine clock st line
         \<and> processLine clock st w1 = closeParagraph st
         \<and> scanLines clock (map trim ls) = scanLines clock ls
         \<and> (trim line = [] \<or> \<not> isSpace (hd (trim line)) \<and> \<not> isSpace (last (trim line)))
         \<and> renderChunks clock ''  # Title  \<newline>\<newline>   2)  Go on  \<newline> text ''
             = [Heading 1 ''Title'', StepItem (stepId (clock 0) 0) ''Go on'',
                OpenP, Inline ''text'', CloseP]"
proof -
  have a: "processLine clock st (w1 @ line @ w2) = processLine clock st line"
    using trim_pad [OF assms, of line] by (simp add: processLine_def)
  have b: "processLine clock st w1 = closeParagraph st"
    using assms(1) by (rule processLine_blank)
  have c: "scanLines clock (map trim ls) = scanLines clock ls"
    by (simp add: scanLines_def foldl_processLine_trim)
  have d: "renderChunks clock ''  # Title  \<newline>\<newline>   2)  Go on  \<newline> text ''
             = [Heading 1 ''Title'', StepItem (stepId (clock 0) 0) ''Go on'',
                OpenP, Inline ''text'', CloseP]"
    by (simp add: renderChunks_def scanLines_def processLine_def
      trim_def isSpace_def startsWith_def numberedMatch_def isDigit_def closeParagraph_def
      push_def initialScan_def parseInlineMarkdown_def escapeHTML_def escapeChar_def
      matchBold_def matchItalic_def wordBoundary_def isWordChar_def isLineTerminator_def)
  have e: "trim line = [] \<or> \<not> isSpace (hd (trim line)) \<and> \<not> isSpace (last (trim line))"
    using trim_ends [of line] by blast
  show ?thesis using a b c d e by blast
qed

theorem lines_are_stripped_witness:
  "list_all isSpace ''   '' \<and> list_all isSpace [CHR 0x09, CHR 0x0D]
   \<and> processLine (\<lambda>k. 1000) initialScan (''   '' @ ''## Sketch'' @ [CHR 0x09, CHR 0x0D])
       = initialScan\<lparr>output_arr := [Heading 2 ''Sketch'']\<rparr>
   \<and> processLine (\<lambda>k. 1000) \<lparr>output_arr = [OpenP, Inline ''a''], inParagraph = True, stepCounter = 0\<rparr>
         ''   ''
       = \<lparr>output_arr = [OpenP, Inline ''a'', CloseP], inParagraph = False, stepCounter = 0\<rparr>"
  using lines_are_stripped [of "''   ''" "[CHR 0x09, CHR 0x0D]" "\<lambda>k. 1000" initialScan
      "''## Sketch''"]
    lines_are_stripped [of "''   ''" "[]" "\<lambda>k. 1000"
      "\<lparr>output_arr = [OpenP, Inline ''a''], inParagraph = True, stepCounter = 0\<rparr>"]
  by (simp add: isSpace_def processLine_def trim_def startsWith_def closeParagraph_def
      push_def initialScan_def parseInlineMarkdown_def escapeHTML_def escapeChar_def
      matchBold_def matchItalic_def wordBoundary_def isWordChar_def)

lemma stepIds_append: "stepIds (xs @ ys) = stepIds xs @ stepIds ys"
  by (induction xs rule: stepIds.induct) simp_all

lemma closeParagraph_ids:
  "stepIds (output_arr (closeParagraph st)) = stepIds (output_arr st)"
  "stepCounter (closeParagraph st) = stepCounter st"
  by (simp_all add: closeParagraph_def stepIds_append)

lemma processLine_ids:
  "stepIds (output_arr (processLine clock st l))
     = stepIds (output_arr st)
         @ map (\<lambda>k. stepId (clock k) k) [stepCounter st ..< stepCounter (processLine clock st l)]
   \<and> stepCounter st \<le> stepCounter (processLine clock st l)"
  by (simp add: processLine_def Let_def push_def closeParagraph_ids stepIds_append
      split: option.split)

lemma foldl_ids:
  "stepIds (output_arr (foldl (processLine clock) st ls))
     = stepIds (output_arr st)
         @ map (\<lambda>k. stepId (clock k) k)
             [stepCounter st ..< stepCounter (foldl (processLine clock) st ls)]
   \<and> stepCounter st \<le> stepCounter (foldl (processLine clock) st ls)"
proof (induction ls arbitrary: st)
  case Nil
  then show ?case by simp
next
  case (Cons l ls)
  let ?s = "processLine clock st l"
  let ?e = "foldl (processLine clock) ?s ls"
  have a: "stepCounter st \<le> stepCounter ?s" and b: "stepCounter ?s \<le> stepCounter ?e"
    using processLine_ids [of clock st l] Cons.IH [of ?s] by simp_all
  have "[stepCounter st ..< stepCounter ?e]
          = [stepCounter st ..< stepCounter ?s] @ [stepCounter ?s ..< stepCounter ?e]"
    using a b by (metis le_Suc_ex upt_add_eq_append)
  then show ?case
    using processLine_ids [of clock st l] Cons.IH [of ?s] a b by simp
qed

lemma scanLines_ids:
  "stepIds (scanLines clock ls)
     = map (\<lambda>k. stepId (clock k) k) [0 ..< length (stepIds (scanLines clock ls))]"
proof -
  let ?n = "stepCounter (foldl (processLine clock) initialScan ls)"
  have "stepIds (scanLines clock ls) = map (\<lambda>k. stepId (clock k) k) [0 ..< ?n]"
    using foldl_ids [of clock initialScan ls]
    by (simp add: scanLines_def closeParagraph_ids initialScan_def)
  then show ?thesis by simp
qed

lemma processLine_erase:
  assumes "map eraseId (output_arr s1) = map eraseId (output_arr s2)"
    and "inParagraph s1 = inParagraph s2"
  shows "map eraseId (output_arr (processLine c1 s1 l))
           = map eraseId (output_arr (processLine c2 s2 l))
         \<and> inParagraph (processLine c1 s1 l) = inParagraph (processLine c2 s2 l)"
  using assms
  by (simp add: processLine_def Let_def push_def closeParagraph_def split: option.split)

lemma foldl_erase:
  assumes "map eraseId (output_arr s1) = map eraseId (output_arr s2)"
    and "inParagraph s1 = inParagraph s2"
  shows "map eraseId (output_arr (foldl (processLine c1) s1 ls))
           = map eraseId (output_arr (foldl (processLine c2) s2 ls))
         \<and> inParagraph (foldl (processLine c1) s1 ls)
           = inParagraph (foldl (processLine c2) s2 ls)"
  using assms
proof (induction ls arbitrary: s1 s2)
  case Nil
  then show ?case by simp
next
  case (Cons l ls)
  show ?case
    using Cons.IH [of "processLine c1 s1 l" "processLine c2 s2 l"]
      processLine_erase [OF Cons.prems, of c1 l c2]
    by simp
qed

text \<open>
  C9, as the claim states it, fails: the step counter starts at zero in every call of
  the renderer, so two calls that read the same clock value give the same identifier to
  their first step items.
\<close>

theorem step_id_reused_across_renders:
  "stepIds (renderChunks (\<lambda>k. 1000) ''1. Open'') = [''step-1000-0'']
   \<and> stepIds (renderChunks (\<lambda>k. 1000) ''1. Close'') = [''step-1000-0'']"
  by (simp add: renderChunks_def scanLines_def processLine_def
      trim_def isSpace_def startsWith_def numberedMatch_def isDigit_def closeParagraph_def
      push_def initialScan_def isLineTerminator_def stepId_def decimal.simps)

text \<open>
  C9, amended. Whatever the clock, a text is rendered to the same chunks up to the
  identifiers of the step items. The identifiers of one rendering are made of the clock
  value read for the step and of the counters 0, 1, 2 and so on, in this order, and are
  pairwise different. Two identifiers are equal only when both their clock values and
  their counters are.
\<close>

theorem step_ids_of_a_render:
  "map eraseId (renderChunks c1 text) = map eraseId (renderChunks c2 text)
   \<and> stepIds (renderChunks c text)
       = map (\<lambda>k. stepId (c k) k) [0 ..< length (stepIds (renderChunks c text))]
   \<and> distinct (stepIds (renderChunks c text))
   \<and> (stepId a j = stepId b k \<longleftrightarrow> a = b \<and> j = k)"
proof -
  have e: "map eraseId (renderChunks c1 text) = map eraseId (renderChunks c2 text)"
    using foldl_erase [of initialScan initialScan c1 "split_nl text" c2]
    by (simp add: renderChunks_def scanLines_def closeParagraph_def)
  have i: "stepIds (renderChunks c text)
       = map (\<lambda>k. stepId (c k) k) [0 ..< length (stepIds (renderChunks c text))]"
    unfolding renderChunks_def by (rule scanLines_ids)
  have "inj_on (\<lambda>k. stepId (c k) k) A" for A
    by (rule inj_onI) (simp add: stepId_eq_iff)
  then have "distinct (map (\<lambda>k. stepId (c k) k) [0 ..< n])" for n
    by (simp add: distinct_map)
  then have d: "distinct (stepIds (renderChunks c text))"
    using i by metis
  show ?thesis using e i d stepId_eq_iff by blast
qed

section \<open>Only the renderer's own markup reaches the output\<close>

lemma escapeHTML_no_angle:
  "CHR ''<'' \<notin> set (escapeHTML t)" "CHR ''>'' \<notin> set (escapeHTML t)"
  by (induction t) (simp_all add: escapeHTML_def escapeChar_def)

lemma markupOnly_plain: "CHR ''<'' \<notin> set s \<Longrightarrow> CHR ''>'' \<notin> set s \<Longrightarrow> markupOnly T s"
  by (induction s) (auto intro: markupOnly.intros)

lemma markupOnly_append: "markupOnly T a \<Longrightarrow> markupOnly T b \<Longrightarrow> markupOnly T (a @ b)"
proof (induction rule: markupOnly.induct)
  case markupOnly_Nil
  then show ?case by simp
next
  case (markupOnly_char c s)
  then show ?case by (simp add: markupOnly.markupOnly_char)
next
  case (markupOnly_tag t s)
  then have "markupOnly T (t @ (s @ b))"
    using markupOnly.intros(3) [of t T "s @ b"] by simp
  then show ?case by simp
qed

lemma markupOnly_mono: "markupOnly T s \<Longrightarrow> T \<subseteq> U \<Longrightarrow> markupOnly U s"
  by (induction rule: markupOnly.induct) (auto intro: markupOnly.intros)

lemma markupOnly_tagI: "t \<in> T \<Longrightarrow> markupOnly T t"
  using markupOnly_tag [of t T "[]"] by (simp add: markupOnly_Nil)

lemma markupOnly_ConsD:
  assumes "markupOnly T (c # s)" "c \<noteq> CHR ''<''" "\<And>t. t \<in> T \<Longrightarrow> \<exists>r. t = CHR ''<'' # r"
  shows "markupOnly T s"
  using assms(1)
proof (cases rule: markupOnly.cases)
  case (markupOnly_tag t s')
  then obtain r where "t = CHR ''<'' # r" using assms(3) by blast
  then show ?thesis using markupOnly_tag assms(2) by simp
qed simp_all

lemma emphasised_prefix:
  "\<forall>c \<in> set u. c \<noteq> CHR ''*'' \<and> c \<noteq> CHR ''_'' \<Longrightarrow> emphasised (u @ s) t
     \<Longrightarrow> \<exists>t'. t = u @ t' \<and> emphasised s t'"
proof (induction u arbitrary: t)
  case Nil
  then show ?case by simp
next
  case (Cons a u)
  from Cons.prems(2) have "emphasised (a # (u @ s)) t" by simp
  then obtain t1 where "t = a # t1" "emphasised (u @ s) t1"
    using Cons.prems(1) by (cases rule: emphasised.cases) auto
  then show ?case using Cons.IH [of t1] Cons.prems(1) by auto
qed

lemma emphasised_keeps: "emphasised s t \<Longrightarrow> emphasised (u @ s) (u @ t)"
  by (induction u) (auto intro: emphasised_keep)

lemma emphasised_Cons_cases:
  assumes "emphasised (c # s) t"
  obtains (keep) t' where "t = c # t'" "emphasised s t'"
  | (single) tg t' where "c = CHR ''*'' \<or> c = CHR ''_''" "tg \<in> emphasisTags" "t = tg @ t'"
      "emphasised s t'"
  | (double) tg s' t' where "c = CHR ''*'' \<or> c = CHR ''_''" "tg \<in> emphasisTags" "s = c # s'"
      "t = tg @ t'" "emphasised s' t'"
  using assms by (cases rule: emphasised.cases) auto

lemma emphasised_markupOnly:
  assumes sub: "emphasisTags \<subseteq> T"
    and shape: "\<And>t. t \<in> T \<Longrightarrow> \<exists>r. t = CHR ''<'' # r \<and> (\<forall>c \<in> set r. c \<noteq> CHR ''*'' \<and> c \<noteq> CHR ''_'')"
  shows "markupOnly T s \<Longrightarrow> emphasised s t \<Longrightarrow> markupOnly T t"
proof (induction arbitrary: t rule: markupOnly.induct)
  case markupOnly_Nil
  then show ?case by (cases rule: emphasised.cases) (auto intro: markupOnly.intros)
next
  case (markupOnly_char c s)
  from markupOnly_char.prems show ?case
  proof (cases rule: emphasised_Cons_cases)
    case (keep t')
    then show ?thesis using markupOnly_char by (auto intro: markupOnly.intros(2))
  next
    case (single tg t')
    then have "tg \<in> T" "markupOnly T t'" using sub markupOnly_char.IH by auto
    then show ?thesis unfolding single(3) using markupOnly.intros(3) [of tg T t'] by simp
  next
    case (double tg s' t')
    then have "emphasised s (c # t')" by (auto intro: emphasised.intros(2))
    then have "markupOnly T (c # t')" by (rule markupOnly_char.IH)
    then have "markupOnly T t'"
    proof (rule markupOnly_ConsD)
      show "c \<noteq> CHR ''<''" by (rule markupOnly_char.hyps(1))
      show "\<exists>r. u = CHR ''<'' # r" if "u \<in> T" for u
        using shape [OF that] by blast
    qed
    moreover have "tg \<in> T" using double sub by auto
    ultimately show ?thesis unfolding double(4) using markupOnly.intros(3) [of tg T t'] by simp
  qed
next
  case (markupOnly_tag tg s)
  obtain r where r: "tg = CHR ''<'' # r" "\<forall>c \<in> set r. c \<noteq> CHR ''*'' \<and> c \<noteq> CHR ''_''"
    using shape [OF markupOnly_tag.hyps(1)] by blast
  then have "\<forall>c \<in> set tg. c \<noteq> CHR ''*'' \<and> c \<noteq> CHR ''_''" by simp
  from emphasised_prefix [OF this markupOnly_tag.prems]
  obtain t' where t': "t = tg @ t'" "emphasised s t'" by blast
  then have "markupOnly T t'" by (intro markupOnly_tag.IH)
  then show ?case
    unfolding t'(1) using markupOnly_tag.hyps(1) markupOnly.intros(3) [of tg T t'] by simp
qed

lemma take2_eq: "take 2 xs = [d, d] \<Longrightarrow> \<exists>r. xs = d # d # r"
  by (cases xs; cases "tl xs") auto

lemma matchBold_shape:
  assumes "matchBold d prev s = Some (g, n)"
  shows "\<exists>r. s = [d, d] @ g @ [d, d] @ r \<and> n = length g + 4"
proof -
  obtain r0 where s: "s = d # d # r0"
    and b: "g = takeWhile (\<lambda>c. c \<noteq> d) r0"
    and t: "take 2 (dropWhile (\<lambda>c. c \<noteq> d) r0) = [d, d]"
    and n: "n = length g + 4"
    using assms by (auto simp: matchBold_def Let_def split: list.splits if_splits)
  obtain r where "dropWhile (\<lambda>c. c \<noteq> d) r0 = d # d # r" using take2_eq [OF t] by blast
  then have "r0 = g @ d # d # r"
    using takeWhile_dropWhile_id [of "\<lambda>c. c \<noteq> d" r0] b by simp
  then show ?thesis using s n by simp
qed

lemma matchItalic_shape:
  assumes "matchItalic d prev s = Some (g, n)"
  shows "\<exists>r. s = [d] @ g @ [d] @ r \<and> n = length g + 2"
proof -
  obtain r0 r where s: "s = d # r0"
    and b: "g = takeWhile (\<lambda>c. c \<noteq> d \<and> c \<noteq> CHR 0x0A) r0"
    and t: "dropWhile (\<lambda>c. c \<noteq> d \<and> c \<noteq> CHR 0x0A) r0 = d # r"
    and n: "n = length g + 2"
    using assms by (auto simp: matchItalic_def Let_def split: list.splits if_splits)
  have "r0 = g @ d # r"
    using takeWhile_dropWhile_id [of "\<lambda>c. c \<noteq> d \<and> c \<noteq> CHR 0x0A" r0] b t by simp
  then show ?thesis using s n by simp
qed

lemma replaceAll_emphasised:
  assumes m: "\<And>prev s g n. m prev s = Some (g, n)
                \<Longrightarrow> \<exists>D r. (D = [d] \<or> D = [d, d]) \<and> s = D @ g @ D @ r
                       \<and> n = length D + length g + length D"
    and d: "d = CHR ''*'' \<or> d = CHR ''_''"
    and tags: "opn \<in> emphasisTags" "cls \<in> emphasisTags"
  shows "emphasised s (replaceAll m opn cls prev s)"
proof (induction "length s" arbitrary: s prev rule: less_induct)
  case less
  show ?case
  proof (cases s)
    case Nil
    then show ?thesis by (simp add: emphasised.intros(1))
  next
    case (Cons c cs)
    show ?thesis
    proof (cases "m prev (c # cs)")
      case None
      have "emphasised cs (replaceAll m opn cls (Some c) cs)"
        by (rule less) (simp add: Cons)
      then show ?thesis using None by (simp add: Cons emphasised.intros(2))
    next
      case (Some a)
      obtain g n where a: "a = (g, n)" by (cases a)
      obtain D r where D: "D = [d] \<or> D = [d, d]" and s: "c # cs = D @ g @ D @ r"
        and n: "n = length D + length g + length D"
        using m [of prev "c # cs" g n] Some a by auto
      have "drop n (c # cs) = r" unfolding s n by simp
      moreover have "0 < n" using D n by auto
      ultimately have dr: "drop (n - 1) cs = r" by (cases n) simp_all
      have "length (c # cs) = length (D @ g @ D @ r)" by (simp only: s)
      then have "length r < length s" using D by (auto simp: Cons)
      then have rec: "emphasised r (replaceAll m opn cls (Some (last (take n (c # cs)))) r)"
        by (rule less)
      let ?out = "replaceAll m opn cls (Some (last (take n (c # cs)))) r"
      have e1: "emphasised (D @ r) (cls @ ?out)"
      proof (cases "D = [d]")
        case True
        then show ?thesis using emphasised.intros(3) [OF d tags(2) rec] by simp
      next
        case False
        then have "D = [d, d]" using D by simp
        then show ?thesis using emphasised.intros(4) [OF d tags(2) rec] by simp
      qed
      have e2: "emphasised (g @ D @ r) (g @ cls @ ?out)"
        using e1 by (rule emphasised_keeps)
      have "emphasised (D @ g @ D @ r) (opn @ g @ cls @ ?out)"
      proof (cases "D = [d]")
        case True
        then show ?thesis using emphasised.intros(3) [OF d tags(1) e2] by simp
      next
        case False
        then have "D = [d, d]" using D by simp
        then show ?thesis using emphasised.intros(4) [OF d tags(1) e2] by simp
      qed
      then show ?thesis using Some a dr by (simp add: Cons s [symmetric])
    qed
  qed
qed

lemma bold_pass:
  "d = CHR ''*'' \<or> d = CHR ''_''
     \<Longrightarrow> emphasised s (replaceAll (matchBold d) ''<strong>'' ''</strong>'' prev s)"
proof (rule replaceAll_emphasised [where d = d])
  fix p s g n
  assume "matchBold d p s = Some (g, n)"
  then obtain r where "s = [d, d] @ g @ [d, d] @ r" "n = length g + 4"
    using matchBold_shape by blast
  then show "\<exists>D r. (D = [d] \<or> D = [d, d]) \<and> s = D @ g @ D @ r
                       \<and> n = length D + length g + length D"
    by (intro exI [of _ "[d, d]"] exI [of _ r]) simp
qed (simp_all add: emphasisTags_def)

lemma italic_pass:
  "d = CHR ''*'' \<or> d = CHR ''_''
     \<Longrightarrow> emphasised s (replaceAll (matchItalic d) ''<em>'' ''</em>'' prev s)"
proof (rule replaceAll_emphasised [where d = d])
  fix p s g n
  assume "matchItalic d p s = Some (g, n)"
  then obtain r where "s = [d] @ g @ [d] @ r" "n = length g + 2"
    using matchItalic_shape by blast
  then show "\<exists>D r. (D = [d] \<or> D = [d, d]) \<and> s = D @ g @ D @ r
                       \<and> n = length D + length g + length D"
    by (intro exI [of _ "[d]"] exI [of _ r]) simp
qed (simp_all add: emphasisTags_def)

lemma emphasisTags_shape:
  "t \<in> emphasisTags \<Longrightarrow> \<exists>r. t = CHR ''<'' # r \<and> (\<forall>c \<in> set r. c \<noteq> CHR ''*'' \<and> c \<noteq> CHR ''_'')"
  by (auto simp: emphasisTags_def)

lemma parseInlineMarkdown_rounds: "emphasised\<^sup>*\<^sup>* (escapeHTML t) (parseInlineMarkdown t)"
proof -
  let ?a = "escapeHTML t"
  let ?b = "replaceAll (matchBold (CHR ''*'')) ''<strong>'' ''</strong>'' None ?a"
  let ?c = "replaceAll (matchBold (CHR ''_'')) ''<strong>'' ''</strong>'' None ?b"
  let ?d = "replaceAll (matchItalic (CHR ''*'')) ''<em>'' ''</em>'' None ?c"
  let ?e = "replaceAll (matchItalic (CHR ''_'')) ''<em>'' ''</em>'' None ?d"
  have "emphasised ?a ?b" by (rule bold_pass) simp
  moreover have "emphasised ?b ?c" by (rule bold_pass) simp
  moreover have "emphasised ?c ?d" by (rule italic_pass) simp
  moreover have "emphasised ?d ?e" by (rule italic_pass) simp
  ultimately have "emphasised\<^sup>*\<^sup>* ?a ?e"
    using rtranclp.rtrancl_into_rtrancl [of emphasised] by blast
  then show ?thesis by (simp add: parseInlineMarkdown_def Let_def)
qed

lemma rounds_markupOnly:
  "emphasised\<^sup>*\<^sup>* s t \<Longrightarrow> markupOnly emphasisTags s \<Longrightarrow> markupOnly emphasisTags t"
proof (induction rule: rtranclp_induct)
  case base
  then show ?case .
next
  case (step y z)
  have "markupOnly emphasisTags y" using step by simp
  then show ?case
    using step.hyps(2) emphasisTags_shape by (rule emphasised_markupOnly [OF subset_refl, rotated])
qed

lemma parseInlineMarkdown_markup: "markupOnly emphasisTags (parseInlineMarkdown t)"
  using parseInlineMarkdown_rounds
  by (rule rounds_markupOnly) (intro markupOnly_plain escapeHTML_no_angle)

lemma closeParagraph_safe:
  "list_all safeChunk (output_arr st) \<Longrightarrow> list_all safeChunk (output_arr (closeParagraph st))"
  by (simp add: closeParagraph_def)

lemma push_safe:
  "safeChunk c \<Longrightarrow> list_all safeChunk (output_arr st)
     \<Longrightarrow> list_all safeChunk (output_arr (push c st))"
  by (simp add: push_def)

lemma heading_safe: "n = 1 \<or> n = 2 \<or> n = 3 \<Longrightarrow> safeChunk (Heading n (escapeHTML x))"
  using markupOnly_plain [OF escapeHTML_no_angle, of "{}" x] by simp

lemma step_safe: "safeChunk (StepItem (stepId a k) (parseInlineMarkdown x))"
  using parseInlineMarkdown_markup [of x] by auto

lemma inline_safe: "safeChunk (Inline (parseInlineMarkdown x))"
  using parseInlineMarkdown_markup [of x] by simp

lemma processLine_safe:
  assumes "list_all safeChunk (output_arr st)"
  shows "list_all safeChunk (output_arr (processLine clock st l))"
proof -
  have c: "list_all safeChunk (output_arr (closeParagraph st))"
    using assms by (rule closeParagraph_safe)
  have o: "list_all safeChunk (output_arr (push OpenP st))"
    "list_all safeChunk (output_arr (push Br st))"
    using assms by (simp_all add: push_safe)
  have o': "list_all safeChunk (output_arr ((push OpenP st)\<lparr>inParagraph := True\<rparr>))"
    using o(1) by simp
  note safe = push_safe [OF heading_safe c] push_safe [OF step_safe c]
    push_safe [OF inline_safe o'] push_safe [OF inline_safe o(2)] c
  show ?thesis
  proof (cases "numberedMatch (trim l)")
    case None
    then show ?thesis using safe by (simp add: processLine_def Let_def)
  next
    case (Some a)
    then show ?thesis using safe by (simp add: processLine_def Let_def)
  qed
qed

lemma foldl_safe:
  "list_all safeChunk (output_arr st)
     \<Longrightarrow> list_all safeChunk (output_arr (foldl (processLine clock) st ls))"
  by (induction ls arbitrary: st) (simp_all add: processLine_safe)

lemma renderChunks_safe: "list_all safeChunk (renderChunks clock text)"
  unfolding renderChunks_def scanLines_def
  by (intro closeParagraph_safe foldl_safe) (simp add: initialScan_def)

lemma wrap_markup:
  assumes "a \<in> T" "markupOnly T s" "b \<in> T"
  shows "markupOnly T (a @ s @ b)"
  using assms markupOnly.intros(3) [of a T "s @ b"] markupOnly_append [of T s b] markupOnly_tagI [of b T]
  by simp

lemma block_tag_literals:
  "''<h1>'' \<in> emphasisTags \<union> blockTags" "''</h1>'' \<in> emphasisTags \<union> blockTags"
  "''<h2>'' \<in> emphasisTags \<union> blockTags" "''</h2>'' \<in> emphasisTags \<union> blockTags"
  "''<h3>'' \<in> emphasisTags \<union> blockTags" "''</h3>'' \<in> emphasisTags \<union> blockTags"
  "''<p>'' \<in> emphasisTags \<union> blockTags" "''</p>'' \<in> emphasisTags \<union> blockTags"
  "''<br>'' \<in> emphasisTags \<union> blockTags"
  "''<label class=\"step-item\">'' \<in> emphasisTags \<union> blockTags"
  "''<span class=\"step-text\">'' \<in> emphasisTags \<union> blockTags"
  "''</span>'' \<in> emphasisTags \<union> blockTags" "''</label>'' \<in> emphasisTags \<union> blockTags"
  unfolding blockTags_def by (rule UnI2, rule UnI1, simp)+

lemma checkbox_tag:
  "''<input type=\"checkbox\" class=\"step-checkbox\" id=\"'' @ stepId a k @ ''\">''
     \<in> emphasisTags \<union> blockTags"
proof -
  have "''<input type=\"checkbox\" class=\"step-checkbox\" id=\"'' @ stepId a k @ ''\">''
          \<in> checkboxTags"
    unfolding checkboxTags_def by (rule range_eqI [of _ _ "(a, k)"]) (simp only: prod.case)
  then show ?thesis by (simp only: blockTags_def Un_iff simp_thms)
qed

lemma safeChunk_html:
  assumes "safeChunk c"
  shows "markupOnly (emphasisTags \<union> blockTags) (chunkHTML c)"
proof (cases c)
  case CloseP
  show ?thesis unfolding CloseP chunkHTML.simps by (rule markupOnly_tagI) (rule block_tag_literals)
next
  case (Heading n t)
  have "markupOnly {} t" using assms Heading by simp
  then have t: "markupOnly (emphasisTags \<union> blockTags) t" by (rule markupOnly_mono) simp
  have n: "n = 1 \<or> n = 2 \<or> n = 3" using assms Heading by simp
  have d: "decimal (Suc 0) = ''1''" "decimal 2 = ''2''" "decimal 3 = ''3''"
    by (simp_all add: decimal.simps)
  have h1: "markupOnly (emphasisTags \<union> blockTags) (''<h1>'' @ t @ ''</h1>'')"
    using block_tag_literals(1) t block_tag_literals(2) by (rule wrap_markup)
  have h2: "markupOnly (emphasisTags \<union> blockTags) (''<h2>'' @ t @ ''</h2>'')"
    using block_tag_literals(3) t block_tag_literals(4) by (rule wrap_markup)
  have h3: "markupOnly (emphasisTags \<union> blockTags) (''<h3>'' @ t @ ''</h3>'')"
    using block_tag_literals(5) t block_tag_literals(6) by (rule wrap_markup)
  from n show ?thesis
  proof (elim disjE)
    assume "n = 1"
    then show ?thesis using h1 by (simp add: Heading d)
  next
    assume "n = 2"
    then show ?thesis using h2 by (simp add: Heading d)
  next
    assume "n = 3"
    then show ?thesis using h3 by (simp add: Heading d)
  qed
next
  case (StepItem ident t)
  let ?T = "emphasisTags \<union> blockTags"
  obtain a k where i: "ident = stepId a k" using assms StepItem by auto
  have "markupOnly emphasisTags t" using assms StepItem by simp
  then have t: "markupOnly ?T t" by (rule markupOnly_mono) simp
  let ?inp = "''<input type=\"checkbox\" class=\"step-checkbox\" id=\"'' @ stepId a k @ ''\">''"
  have inp: "markupOnly ?T ?inp" using checkbox_tag by (rule markupOnly_tagI)
  have span: "markupOnly ?T (''<span class=\"step-text\">'' @ t @ ''</span>'')"
    using block_tag_literals(11) t block_tag_literals(12) by (rule wrap_markup)
  have "markupOnly ?T (''<label class=\"step-item\">''
          @ (?inp @ ''<span class=\"step-text\">'' @ t @ ''</span>'') @ ''</label>'')"
    using block_tag_literals(10) markupOnly_append [OF inp span] block_tag_literals(13)
    by (rule wrap_markup)
  then show ?thesis by (simp add: StepItem i)
next
  case OpenP
  show ?thesis unfolding OpenP chunkHTML.simps by (rule markupOnly_tagI) (rule block_tag_literals)
next
  case Br
  show ?thesis unfolding Br chunkHTML.simps by (rule markupOnly_tagI) (rule block_tag_literals)
next
  case (Inline t)
  have "markupOnly emphasisTags t" using assms Inline by simp
  then have "markupOnly (emphasisTags \<union> blockTags) t" by (rule markupOnly_mono) simp
  then show ?thesis by (simp add: Inline)
qed

lemma concat_markup:
  "list_all safeChunk cs \<Longrightarrow> markupOnly (emphasisTags \<union> blockTags) (concat (map chunkHTML cs))"
proof (induction cs)
  case Nil
  show ?case by (simp add: markupOnly.intros(1))
next
  case (Cons c cs)
  then have "markupOnly (emphasisTags \<union> blockTags) (chunkHTML c)"
    "markupOnly (emphasisTags \<union> blockTags) (concat (map chunkHTML cs))"
    by (simp_all add: safeChunk_html)
  then show ?case using markupOnly_append by simp
qed

lemma escapeHTML_Cons: "escapeHTML (c # cs) = escapeChar c @ escapeHTML cs"
  by (simp add: escapeHTML_def)

lemma decode_escapeChar: "decodeEntities (escapeChar c @ s) = c # decodeEntities s"
  by (simp add: escapeChar_def startsWith_def)

lemma decode_escapeHTML: "decodeEntities (escapeHTML t) = t"
  by (induction t) (simp_all add: escapeHTML_Cons decode_escapeChar, simp add: escapeHTML_def)

lemma spaceBacktrack_suffix: "spaceBacktrack r k = Some rest \<Longrightarrow> \<exists>p. r = p @ rest"
proof (induction k)
  case 0
  then show ?case by simp
next
  case (Suc k)
  show ?case
  proof (cases "spaceBacktrack r (Suc k) = Some (drop (Suc k) r)")
    case True
    then have "rest = drop (Suc k) r" using Suc.prems by simp
    then have "r = take (Suc k) r @ rest" by simp
    then show ?thesis by blast
  next
    case False
    then have "spaceBacktrack r (Suc k) = spaceBacktrack r k"
      by (simp add: Let_def split: if_splits)
    then show ?thesis using Suc by simp
  qed
qed

lemma numberedMatch_suffix:
  assumes "numberedMatch line = Some rest"
  shows "\<exists>p. line = p @ rest"
proof -
  obtain c r where d: "dropWhile isDigit line = c # r"
    and b: "spaceBacktrack r (length (takeWhile isSpace r)) = Some rest"
    using assms by (auto simp: numberedMatch_def Let_def split: if_splits list.splits)
  obtain q where q: "r = q @ rest" using spaceBacktrack_suffix [OF b] by blast
  have "line = takeWhile isDigit line @ dropWhile isDigit line" by simp
  then have "line = (takeWhile isDigit line @ c # q) @ rest" using d q by simp
  then show ?thesis by blast
qed

lemma processLine_chunks:
  "\<exists>cs. output_arr (processLine clock st l) = output_arr st @ cs
        \<and> list_all (chunkFrom (trim l)) cs"
proof -
  let ?line = "trim l"
  have c: "\<exists>cs. output_arr (closeParagraph st) = output_arr st @ cs
        \<and> list_all (chunkFrom ?line) cs"
    by (simp add: closeParagraph_def)
  then obtain cs0 where cs0: "output_arr (closeParagraph st) = output_arr st @ cs0"
    "list_all (chunkFrom ?line) cs0" by blast
  have h: "chunkFrom ?line (Heading n (escapeHTML (parseInlineMarkdown (drop k ?line))))" for n k
  proof -
    have "?line = take k ?line @ drop k ?line" by simp
    then show ?thesis unfolding chunkFrom.simps by blast
  qed
  have pushc: "chunkFrom ?line x \<Longrightarrow> \<exists>cs. output_arr (push x (closeParagraph st)) = output_arr st @ cs
        \<and> list_all (chunkFrom ?line) cs" for x
    using cs0 by (simp add: push_def)
  show ?thesis
  proof (cases "startsWith ''### '' ?line \<or> startsWith ''## '' ?line \<or> startsWith ''# '' ?line")
    case True
    then show ?thesis using pushc [OF h] by (auto simp: processLine_def Let_def)
  next
    case False
    show ?thesis
    proof (cases "numberedMatch ?line")
      case None
      then show ?thesis using False
        by (simp add: processLine_def Let_def push_def closeParagraph_def)
    next
      case (Some rest)
      then obtain p where "?line = p @ rest" using numberedMatch_suffix by blast
      then have "chunkFrom ?line (StepItem (stepId (clock (stepCounter st)) (stepCounter st))
          (parseInlineMarkdown rest))"
        unfolding chunkFrom.simps by blast
      then show ?thesis using False Some pushc by (simp add: processLine_def Let_def)
    qed
  qed
qed

text \<open>
  C1. Escaping goes through the text character by character: the ampersand, the
  no-break space and the two angle brackets become their entities and every other
  character stays, so that the escaped text has no angle bracket and reads back as the
  text it was made from. Inline parsing works on the escaped text: its result comes
  from the escaped text by rounds that only replace emphasis delimiters by emphasis
  tags, so the only tags in it are emphasis tags. This holds for the text of every
  block: what a line adds to the output is made from the stripped line by escaping and
  inline parsing alone, and each chunk of a rendering is a heading whose text has no
  tag at all (the heading text is escaped a second time), or a step item or paragraph
  line whose only tags are emphasis tags. So every tag of the rendered output is one
  the renderer writes itself, and no angle bracket of the input text reaches the
  output.
\<close>

theorem rendered_markup_is_fixed:
  "escapeHTML [] = []
   \<and> escapeHTML (c # cs)
       = (if c = CHR ''&'' then ''&amp;''
          else if c = CHR 0xA0 then ''&nbsp;''
          else if c = CHR ''<'' then ''&lt;''
          else if c = CHR ''>'' then ''&gt;''
          else [c]) @ escapeHTML cs
   \<and> decodeEntities (escapeHTML text) = text
   \<and> CHR ''<'' \<notin> set (escapeHTML text) \<and> CHR ''>'' \<notin> set (escapeHTML text)
   \<and> emphasised\<^sup>*\<^sup>* (escapeHTML text) (parseInlineMarkdown text)
   \<and> markupOnly emphasisTags (parseInlineMarkdown text)
   \<and> (\<exists>chunks. output_arr (processLine clock st l) = output_arr st @ chunks
          \<and> list_all (chunkFrom (trim l)) chunks)
   \<and> list_all safeChunk (renderChunks clock text)
   \<and> markupOnly (emphasisTags \<union> blockTags) (parseMarkdownToHTML clock text)"
proof -
  have a: "escapeHTML [] = []" by (simp add: escapeHTML_def)
  have b: "escapeHTML (c # cs)
       = (if c = CHR ''&'' then ''&amp;''
          else if c = CHR 0xA0 then ''&nbsp;''
          else if c = CHR ''<'' then ''&lt;''
          else if c = CHR ''>'' then ''&gt;''
          else [c]) @ escapeHTML cs"
    by (simp only: escapeHTML_Cons escapeChar_def)
  have d: "markupOnly (emphasisTags \<union> blockTags) (parseMarkdownToHTML clock text)"
    using concat_markup [OF renderChunks_safe] by (simp add: parseMarkdownToHTML_def)
  show ?thesis
    using a b decode_escapeHTML [of "text"] escapeHTML_no_angle [of "text"]
      parseInlineMarkdown_rounds [of "text"] parseInlineMarkdown_markup [of "text"]
      processLine_chunks [of clock st l] renderChunks_safe [of clock "text"] d
    by (intro conjI)
qed

theorem rendered_markup_is_fixed_witness:
  "escapeHTML ''a & <b>'' = ''a &amp; &lt;b&gt;''
   \<and> decodeEntities ''a &amp; &lt;b&gt;'' = ''a & <b>''
   \<and> emphasised\<^sup>*\<^sup>* (escapeHTML ''<b>__x__</b>'') (parseInlineMarkdown ''<b>__x__</b>'')
   \<and> markupOnly emphasisTags ''&lt;b&gt;<strong>x</strong>&lt;/b&gt;''
   \<and> markupOnly (emphasisTags \<union> blockTags)
        ''<p>&lt;script&gt;alert(1)&lt;/script&gt;</p><h1>&lt;strong&gt;a&lt;/strong&gt;</h1>''"
proof -
  have e: "escapeHTML ''a & <b>'' = ''a &amp; &lt;b&gt;''"
    by (simp add: escapeHTML_def escapeChar_def)
  have a: "parseInlineMarkdown ''<b>__x__</b>'' = ''&lt;b&gt;<strong>x</strong>&lt;/b&gt;''"
    by (simp add: parseInlineMarkdown_def escapeHTML_def escapeChar_def
      matchBold_def matchItalic_def wordBoundary_def isWordChar_def)
  have b: "parseMarkdownToHTML (\<lambda>k. 1000) ''<script>alert(1)</script>\<newline># **a**''
      = ''<p>&lt;script&gt;alert(1)&lt;/script&gt;</p><h1>&lt;strong&gt;a&lt;/strong&gt;</h1>''"
    by (simp add: parseMarkdownToHTML_def renderChunks_def scanLines_def processLine_def
      trim_def isSpace_def startsWith_def numberedMatch_def isDigit_def closeParagraph_def
      push_def initialScan_def decimal.simps parseInlineMarkdown_def escapeHTML_def
      escapeChar_def matchBold_def matchItalic_def wordBoundary_def isWordChar_def)
  have w1: "decodeEntities (escapeHTML ''a & <b>'') = ''a & <b>''"
    using rendered_markup_is_fixed [of "CHR ''&''" "'' <b>''" "''a & <b>''" "\<lambda>k. 1000"
        initialScan "''a & <b>''"]
    by (elim conjE)
  have w2: "emphasised\<^sup>*\<^sup>* (escapeHTML ''<b>__x__</b>'') (parseInlineMarkdown ''<b>__x__</b>'')"
    using rendered_markup_is_fixed [of "CHR ''&''" "'' <b>''" "''<b>__x__</b>''" "\<lambda>k. 1000"
        initialScan "''a & <b>''"]
    by (elim conjE)
  have w2': "markupOnly emphasisTags (parseInlineMarkdown ''<b>__x__</b>'')"
    using rendered_markup_is_fixed [of "CHR ''&''" "'' <b>''" "''<b>__x__</b>''" "\<lambda>k. 1000"
        initialScan "''a & <b>''"]
    by (elim conjE)
  have w3: "markupOnly (emphasisTags \<union> blockTags)
      (parseMarkdownToHTML (\<lambda>k. 1000) ''<script>alert(1)</script>\<newline># **a**'')"
    using rendered_markup_is_fixed [of "CHR ''&''" "'' <b>''"
        "''<script>alert(1)</script>\<newline># **a**''" "\<lambda>k. 1000" initialScan "''a & <b>''"]
    by (elim conjE)
  show ?thesis using e w1 w2 w2' w3 unfolding a b e by (intro conjI)
qed

end
